theory Spec2Isabelle
  imports Main "HOL-Library.Multiset"
begin

section \<open>Gmail AI Triage (src/app.js): a shallow embedding\<close>

text \<open>
  The page is single-threaded: every \<^verbatim>\<open>await\<close> suspends until the remote answers, so an
  \<^verbatim>\<open>async\<close> function is modelled as a function that takes the remote's answer (or the
  remote itself) and returns either the error it throws (\<open>Inl\<close>) or its value (\<open>Inr\<close>).
\<close>

subsection \<open>Strings\<close>

text \<open>
  Strings are ASCII texts. \<^verbatim>\<open>String.prototype.trim\<close> removes the white space and line
  terminators at both ends (TAB, LF, VT, FF, CR, SP among the ASCII characters);
  \<^verbatim>\<open>toLowerCase\<close> maps A..Z to a..z and leaves every other ASCII character alone.
\<close>

definition is_space :: "char \<Rightarrow> bool" where
  "is_space c = (c \<in> set [CHR 0x09, CHR 0x0A, CHR 0x0B, CHR 0x0C, CHR 0x0D, CHR '' ''])"

definition lower_char :: "char \<Rightarrow> char" where
  "lower_char c =
     (case map_of (zip ''ABCDEFGHIJKLMNOPQRSTUVWXYZ'' ''abcdefghijklmnopqrstuvwxyz'') c of
        None \<Rightarrow> c
      | Some l \<Rightarrow> l)"

definition toLowerCase :: "string \<Rightarrow> string" where
  "toLowerCase s = map lower_char s"

definition trim :: "string \<Rightarrow> string" where
  "trim s = rev (dropWhile is_space (rev (dropWhile is_space s)))"

subsection \<open>normalizeSender (app.js 46-50)\<close>

text \<open>
  \<^verbatim>\<open>s.match(/<([^>]+)>/)\<close>: the leftmost opening angle bracket that is followed by at
  least one character other than a closing angle bracket and then by a closing angle
  bracket; the group is the run of characters between the two brackets. Backtracking
  cannot help the greedy \<^verbatim>\<open>[^>]+\<close>, since no character of the run is the closing
  bracket. \<open>None\<close> is the \<^verbatim>\<open>null\<close> of a failed match.
\<close>

fun angle_match :: "string \<Rightarrow> string option" where
  "angle_match [] = None"
| "angle_match (c # cs) =
     (if c = CHR ''<'' then
        (let g = takeWhile (\<lambda>x. x \<noteq> CHR ''>'') cs in
         if g \<noteq> [] \<and> length g < length cs then Some g else angle_match cs)
      else angle_match cs)"

text \<open>The argument is \<open>None\<close> for an absent header value (\<^verbatim>\<open>fromHeader || ""\<close>).\<close>

definition normalizeSender :: "string option \<Rightarrow> string" where
  "normalizeSender fromHeader =
     (let s = (case fromHeader of None \<Rightarrow> [] | Some h \<Rightarrow> h) in
      case angle_match s of
        Some g \<Rightarrow> toLowerCase (trim g)
      | None \<Rightarrow> (let t = toLowerCase (trim s) in if t = [] then ''(unknown)'' else t))"

subsection \<open>Errors and JSON values\<close>

datatype error =
    NotConnected                 \<comment> \<open>gmailFetch: no access token\<close>
  | GmailApiError nat string     \<comment> \<open>gmailFetch: \<^verbatim>\<open>!res.ok\<close>, status and body text\<close>
  | MissingGroqKey               \<comment> \<open>groqClassifyBatch: no API key\<close>
  | GroqApiError nat string      \<comment> \<open>groqClassifyBatch: \<^verbatim>\<open>!res.ok\<close>\<close>
  | NetworkFailure               \<comment> \<open>\<^verbatim>\<open>fetch\<close> rejects\<close>
  | SyntaxError                  \<comment> \<open>\<^verbatim>\<open>JSON.parse\<close> or \<^verbatim>\<open>res.json()\<close> rejects the text\<close>
  | TypeError                    \<comment> \<open>property read on null/undefined, or a call of a non-function\<close>

text \<open>
  A value that \<^verbatim>\<open>JSON.parse\<close> can produce. Numbers are integers here: the code only
  tests them for truthiness and as \<^verbatim>\<open>Map\<close> keys. An object is its list of members in
  source order; a key written twice keeps its last value. \<^verbatim>\<open>undefined\<close> is the
  \<open>None\<close> of \<open>json option\<close>.
\<close>

datatype json =
    JNull
  | JBool bool
  | JNum int
  | JStr string
  | JArr "json list"
  | JObj "(string \<times> json) list"

fun truthy :: "json \<Rightarrow> bool" where
  "truthy JNull = False"
| "truthy (JBool b) = b"
| "truthy (JNum n) = (n \<noteq> 0)"
| "truthy (JStr s) = (s \<noteq> [])"
| "truthy (JArr xs) = True"
| "truthy (JObj kvs) = True"

text \<open>
  \<^verbatim>\<open>v.k\<close> for the member names the code reads (\<^verbatim>\<open>decisions\<close>, \<^verbatim>\<open>id\<close>, \<^verbatim>\<open>action\<close>,
  \<^verbatim>\<open>category\<close>, \<^verbatim>\<open>summary\<close>, \<^verbatim>\<open>reason\<close>): none of them is inherited by an object, an
  array, a string, a number or a boolean, and reading a member of \<^verbatim>\<open>null\<close> throws.
\<close>

fun read_member :: "json \<Rightarrow> string \<Rightarrow> error + json option" where
  "read_member JNull k = Inl TypeError"
| "read_member (JObj kvs) k = Inr (map_of (rev kvs) k)"
| "read_member v k = Inr None"

text \<open>\<^verbatim>\<open>v?.k\<close>, where \<open>v\<close> is a value or \<^verbatim>\<open>undefined\<close>.\<close>

fun read_opt :: "json option \<Rightarrow> string \<Rightarrow> json option" where
  "read_opt (Some (JObj kvs)) k = map_of (rev kvs) k"
| "read_opt v k = None"

text \<open>\<^verbatim>\<open>xs.map(f)\<close> where \<open>f\<close> may throw: the first error ends the loop.\<close>

fun traverse :: "('a \<Rightarrow> error + 'b) \<Rightarrow> 'a list \<Rightarrow> error + 'b list" where
  "traverse f [] = Inr []"
| "traverse f (x # xs) =
     (case f x of
        Inl e \<Rightarrow> Inl e
      | Inr y \<Rightarrow> (case traverse f xs of Inl e \<Rightarrow> Inl e | Inr ys \<Rightarrow> Inr (y # ys)))"

subsection \<open>Data model\<close>

record settings =
  googleClientId :: string
  groqKey :: string
  groqModel :: string
  batchSize :: int
  maxMessages :: int
  query :: string

text \<open>The object built by getMessageMeta (app.js 148-156).\<close>

record message_meta =
  e_id :: string
  e_from :: string
  e_to :: string
  e_subject :: string
  e_date :: string
  e_snippet :: string
  e_sender :: string

text \<open>
  \<^verbatim>\<open>{ ...e, decision }\<close>; \<open>e_trashed\<close> is the \<^verbatim>\<open>_trashed\<close> flag, false while the member is
  absent. The decision is the object the model sent, as it came.
\<close>

record labeled_email = message_meta +
  e_decision :: json
  e_trashed :: bool

subsection \<open>Classification client: groqClassifyBatch (app.js 159-206)\<close>

text \<open>The answer of one HTTP round trip, as the code tells the cases apart.\<close>

datatype 'a http =
    NetworkError               \<comment> \<open>\<^verbatim>\<open>fetch\<close> rejects\<close>
  | HttpError nat string       \<comment> \<open>\<^verbatim>\<open>!res.ok\<close>: status and body text\<close>
  | BadBody                    \<comment> \<open>\<^verbatim>\<open>res.ok\<close>, and \<^verbatim>\<open>res.json()\<close> rejects the body\<close>
  | HttpOk 'a                  \<comment> \<open>\<^verbatim>\<open>res.ok\<close> and the decoded body\<close>

text \<open>
  \<^verbatim>\<open>data?.choices?.[0]?.message?.content\<close> of a chat completion: absent or empty (then
  the code parses \<^verbatim>\<open>"{}"\<close>), a text that \<^verbatim>\<open>JSON.parse\<close> rejects, or a text that
  \<^verbatim>\<open>JSON.parse\<close> turns into a value.
\<close>

datatype content = ContentAbsent | ContentMalformed | ContentJson json

text \<open>
  The request of app.js 173-192. The system message is a fixed text (app.js 161-171)
  that depends on no input and is left out.
\<close>

record groq_request =
  rq_bearer :: string
  rq_model :: string
  rq_temperature :: int
  rq_response_format :: string
  rq_user :: json

definition payload :: "'a message_meta_scheme \<Rightarrow> json" where
  "payload e = JObj
     [(''id'', JStr (e_id e)), (''from'', JStr (e_from e)), (''to'', JStr (e_to e)),
      (''subject'', JStr (e_subject e)), (''date'', JStr (e_date e)),
      (''snippet'', JStr (e_snippet e))]"

definition groq_body :: "settings \<Rightarrow> 'a message_meta_scheme list \<Rightarrow> groq_request" where
  "groq_body s emails =
     \<lparr>rq_bearer = groqKey s, rq_model = groqModel s, rq_temperature = 0,
      rq_response_format = ''json_object'',
      rq_user = JObj [(''emails'', JArr (map payload emails))]\<rparr>"

text \<open>\<^verbatim>\<open>JSON.parse(content)\<close> with \<^verbatim>\<open>content = ... || "{}"\<close> (app.js 200-201).\<close>

fun parse_content :: "content \<Rightarrow> error + json" where
  "parse_content ContentAbsent = Inr (JObj [])"
| "parse_content ContentMalformed = Inl SyntaxError"
| "parse_content (ContentJson v) = Inr v"

text \<open>\<^verbatim>\<open>Array.isArray(parsed.decisions) ? parsed.decisions : []\<close> (app.js 202).\<close>

definition decisions_of :: "json \<Rightarrow> error + json list" where
  "decisions_of parsed =
     (case read_member parsed ''decisions'' of
        Inl e \<Rightarrow> Inl e
      | Inr (Some (JArr ds)) \<Rightarrow> Inr ds
      | Inr _ \<Rightarrow> Inr [])"

text \<open>
  \<^verbatim>\<open>new Map(decisions.map(d => [d.id, d]))\<close> (app.js 203): the entries in order. A
  later entry with the same key replaces the value of an earlier one, so a lookup
  returns the last entry with that key. The only keys looked up are strings, which
  equal no key but the same string.
\<close>

definition entry_of :: "json \<Rightarrow> error + (json option \<times> json)" where
  "entry_of d = (case read_member d ''id'' of Inl e \<Rightarrow> Inl e | Inr k \<Rightarrow> Inr (k, d))"

definition byId_get :: "(json option \<times> json) list \<Rightarrow> string \<Rightarrow> json option" where
  "byId_get byId i = map_option snd (find (\<lambda>p. fst p = Some (JStr i)) (rev byId))"

definition default_decision :: "string \<Rightarrow> json" where
  "default_decision i = JObj
     [(''id'', JStr i), (''action'', JStr ''review''), (''category'', JStr ''other''),
      (''summary'', JStr []), (''reason'', JStr ''No decision.'')]"

text \<open>\<^verbatim>\<open>{ ...e, decision: byId.get(e.id) || {...} }\<close> (app.js 205).\<close>

definition with_decision :: "message_meta \<Rightarrow> json \<Rightarrow> labeled_email" where
  "with_decision e d = message_meta.extend e (labeled_email.fields d False)"

definition attach :: "(json option \<times> json) list \<Rightarrow> message_meta \<Rightarrow> labeled_email" where
  "attach byId e =
     with_decision e
       (case byId_get byId (e_id e) of
          Some d \<Rightarrow> if truthy d then d else default_decision (e_id e)
        | None \<Rightarrow> default_decision (e_id e))"

definition decode :: "content \<Rightarrow> message_meta list \<Rightarrow> error + labeled_email list" where
  "decode c emails =
     (case parse_content c of
        Inl e \<Rightarrow> Inl e
      | Inr parsed \<Rightarrow>
          (case decisions_of parsed of
             Inl e \<Rightarrow> Inl e
           | Inr decisions \<Rightarrow>
               (case traverse entry_of decisions of
                  Inl e \<Rightarrow> Inl e
                | Inr byId \<Rightarrow> Inr (map (attach byId) emails))))"

text \<open>The third argument is the remote's answer to the request \<open>groq_body s emails\<close>.\<close>

definition groqClassifyBatch ::
  "settings \<Rightarrow> message_meta list \<Rightarrow> content http \<Rightarrow> error + labeled_email list" where
  "groqClassifyBatch s emails res =
     (if groqKey s = [] then Inl MissingGroqKey
      else case res of
        NetworkError \<Rightarrow> Inl NetworkFailure
      | HttpError st txt \<Rightarrow> Inl (GroqApiError st txt)
      | BadBody \<Rightarrow> Inl SyntaxError
      | HttpOk c \<Rightarrow> decode c emails)"

subsection \<open>Page state and the remote services\<close>

text \<open>
  One remote call: what was asked. The log of the calls made so far, each with
  whether the calling function returned normally from it, is ghost state: the code
  keeps no such list, the model records it to say which calls happened.
\<close>

datatype call =
    ListCall "string option" int              \<comment> \<open>\<^verbatim>\<open>GET messages?maxResults=..&q=..\<close>\<close>
  | GetCall string "(string \<times> string) list"   \<comment> \<open>\<^verbatim>\<open>GET messages/<id>?<params>\<close>\<close>
  | TrashCall string                          \<comment> \<open>\<^verbatim>\<open>POST messages/<id>/trash\<close>\<close>
  | ChatCall groq_request                     \<comment> \<open>\<^verbatim>\<open>POST chat/completions\<close>\<close>

text \<open>The decoded body of \<^verbatim>\<open>messages/<id>\<close>: \<^verbatim>\<open>payload.headers\<close> and \<^verbatim>\<open>snippet\<close>.\<close>

record gmail_msg =
  headers :: "(string \<times> string) list"
  snippet :: string

text \<open>
  The remote services: the answer to each call, which may depend on the number of
  calls made before it (so the same request can be answered differently later).
\<close>

record remote =
  r_list :: "nat \<Rightarrow> string option \<Rightarrow> int \<Rightarrow> string list http"
  r_get :: "nat \<Rightarrow> string \<Rightarrow> gmail_msg http"
  r_trash :: "nat \<Rightarrow> string \<Rightarrow> unit http"
  r_chat :: "nat \<Rightarrow> groq_request \<Rightarrow> content http"

record sender_group =
  g_sender :: string
  g_fromHeaderSample :: string
  g_emails :: "labeled_email list"

text \<open>
  The \<^verbatim>\<open>state\<close> object of scan (app.js 233-238). \<open>grouped\<close> is the object used as a
  dictionary: its own members in insertion order.
\<close>

record scan_state =
  generatedAt :: string
  s_query :: string
  total :: nat
  grouped :: "(string \<times> sender_group) list"

text \<open>The status line, by the template that wrote it and the values it shows.\<close>

datatype status =
    StNone
  | StSaved
  | StScanning
  | StProgress nat nat
  | StDone nat string string
  | StTrashing nat
  | StTrashedCount nat nat
  | StTrashingOne
  | StTrashedOne
  | StNoLast
  | StLoaded nat string string
  | StErrorText error

text \<open>What render puts on the page; texts are kept as they are before \<^verbatim>\<open>esc\<close>.\<close>

record row_view =
  rv_subject :: string
  rv_snip :: string
  rv_action :: string
  rv_pill :: string
  rv_cat :: string
  rv_date :: "string option"
  rv_reason :: "string option"
  rv_trashed :: bool

record group_view =
  gv_sender :: string
  gv_sample :: string
  gv_total :: int
  gv_keep :: int
  gv_trash :: int
  gv_review :: int
  gv_collapsed :: bool
  gv_rows :: "row_view list"

record view =
  v_groups :: "group_view list"
  v_scanned :: nat
  v_keep :: int
  v_trash :: int
  v_review :: int

text \<open>
  The page: the in-memory access token, the two localStorage documents
  (\<open>ls_settings\<close> under \<^verbatim>\<open>LS_KEY\<close>, \<open>ls_last\<close> under \<^verbatim>\<open>LS_LAST\<close>), the status line, the
  rendered results, and the ghost log of remote calls.
\<close>

record world =
  accessToken :: "string option"
  ls_settings :: "settings option"
  ls_last :: "scan_state option"
  status :: status
  page :: "view option"
  calls :: "(call \<times> bool) list"

definition returned :: "error + 'a \<Rightarrow> bool" where
  "returned r = (case r of Inl e \<Rightarrow> False | Inr v \<Rightarrow> True)"

subsection \<open>Mailbox client (app.js 110-157, 245-247)\<close>

definition gmail_result :: "'a http \<Rightarrow> error + 'a" where
  "gmail_result res =
     (case res of
        NetworkError \<Rightarrow> Inl NetworkFailure
      | HttpError st txt \<Rightarrow> Inl (GmailApiError st txt)
      | BadBody \<Rightarrow> Inl SyntaxError
      | HttpOk v \<Rightarrow> Inr v)"

text \<open>
  gmailFetch: the token is checked before anything is sent. The second argument is
  the remote's answer to the call.
\<close>

definition gmailFetch :: "call \<Rightarrow> 'a http \<Rightarrow> world \<Rightarrow> (error + 'a) \<times> world" where
  "gmailFetch c res w =
     (if accessToken w = None \<or> accessToken w = Some [] then (Inl NotConnected, w)
      else (gmail_result res, w\<lparr>calls := calls w @ [(c, returned (gmail_result res))]\<rparr>))"

definition listMessageIds ::
  "remote \<Rightarrow> string \<Rightarrow> int \<Rightarrow> world \<Rightarrow> (error + string list) \<times> world" where
  "listMessageIds R q maxResults w =
     (let qp = (if trim q = [] then None else Some (trim q)) in
      gmailFetch (ListCall qp maxResults) (r_list R (length (calls w)) qp maxResults) w)"

definition headerValue :: "gmail_msg \<Rightarrow> string \<Rightarrow> string" where
  "headerValue msg name =
     (case find (\<lambda>h. toLowerCase (fst h) = toLowerCase name) (headers msg) of
        Some h \<Rightarrow> snd h
      | None \<Rightarrow> [])"

definition metadata_params :: "(string \<times> string) list" where
  "metadata_params =
     [(''format'', ''metadata''), (''metadataHeaders'', ''From''), (''metadataHeaders'', ''To''),
      (''metadataHeaders'', ''Subject''), (''metadataHeaders'', ''Date'')]"

definition meta_of :: "string \<Rightarrow> gmail_msg \<Rightarrow> message_meta" where
  "meta_of i msg =
     \<lparr>e_id = i, e_from = headerValue msg ''From'', e_to = headerValue msg ''To'',
      e_subject = headerValue msg ''Subject'', e_date = headerValue msg ''Date'',
      e_snippet = snippet msg, e_sender = normalizeSender (Some (headerValue msg ''From''))\<rparr>"

definition getMessageMeta ::
  "remote \<Rightarrow> string \<Rightarrow> world \<Rightarrow> (error + message_meta) \<times> world" where
  "getMessageMeta R i w =
     (case gmailFetch (GetCall i metadata_params) (r_get R (length (calls w)) i) w of
        (Inl e, w') \<Rightarrow> (Inl e, w')
      | (Inr msg, w') \<Rightarrow> (Inr (meta_of i msg), w'))"

definition trashMessage :: "remote \<Rightarrow> string \<Rightarrow> world \<Rightarrow> (error + unit) \<times> world" where
  "trashMessage R i w = gmailFetch (TrashCall i) (r_trash R (length (calls w)) i) w"

text \<open>groqClassifyBatch with its round trip: nothing is sent when the key is missing.\<close>

definition classify ::
  "remote \<Rightarrow> settings \<Rightarrow> message_meta list \<Rightarrow> world \<Rightarrow> (error + labeled_email list) \<times> world" where
  "classify R s emails w =
     (if groqKey s = [] then (Inl MissingGroqKey, w)
      else
        (let out = groqClassifyBatch s emails (r_chat R (length (calls w)) (groq_body s emails)) in
         (out, w\<lparr>calls := calls w @ [(ChatCall (groq_body s emails), returned out)]\<rparr>)))"

subsection \<open>Triage orchestrator: scan (app.js 208-243)\<close>

text \<open>
  The form fields read by saveSettings (app.js 63-75); a numeric field is \<open>None\<close>
  when it is empty (\<^verbatim>\<open>Number(value || 10)\<close>).
\<close>

record form =
  f_googleClientId :: string
  f_groqKey :: string
  f_groqModel :: string
  f_batchSize :: "int option"
  f_maxMessages :: "int option"
  f_query :: string

definition saveSettings :: "form \<Rightarrow> world \<Rightarrow> settings \<times> world" where
  "saveSettings f w =
     (let s = \<lparr>googleClientId = trim (f_googleClientId f), groqKey = trim (f_groqKey f),
               groqModel = f_groqModel f,
               batchSize = (case f_batchSize f of None \<Rightarrow> 10 | Some n \<Rightarrow> n),
               maxMessages = (case f_maxMessages f of None \<Rightarrow> 50 | Some n \<Rightarrow> n),
               query = trim (f_query f)\<rparr>
      in (s, w\<lparr>ls_settings := Some s, status := StSaved\<rparr>))"

text \<open>\<^verbatim>\<open>for (const id of ids) metas.push(await getMessageMeta(id))\<close> (app.js 215-216).\<close>

fun getMetas :: "remote \<Rightarrow> string list \<Rightarrow> world \<Rightarrow> (error + message_meta list) \<times> world" where
  "getMetas R [] w = (Inr [], w)"
| "getMetas R (i # ids) w =
     (case getMessageMeta R i w of
        (Inl e, w') \<Rightarrow> (Inl e, w')
      | (Inr m, w') \<Rightarrow>
          (case getMetas R ids w' of
             (Inl e, w'') \<Rightarrow> (Inl e, w'')
           | (Inr ms, w'') \<Rightarrow> (Inr (m # ms), w'')))"

text \<open>\<^verbatim>\<open>Math.max(1, settings.batchSize || 10)\<close> (app.js 218).\<close>

definition batch_size :: "settings \<Rightarrow> nat" where
  "batch_size s = nat (max 1 (if batchSize s = 0 then 10 else batchSize s))"

text \<open>
  The loop of app.js 220-224 from index \<open>i\<close> on, with \<open>labeled\<close> collected so far:
  \<^verbatim>\<open>metas.slice(i, i + batchSize)\<close> is \<open>take b (drop i metas)\<close>.
\<close>

function classifyFrom ::
  "remote \<Rightarrow> settings \<Rightarrow> message_meta list \<Rightarrow> nat \<Rightarrow> labeled_email list \<Rightarrow> world
     \<Rightarrow> (error + labeled_email list) \<times> world" where
  "classifyFrom R s metas i labeled w =
     (if i < length metas then
        (case classify R s (take (batch_size s) (drop i metas)) w of
           (Inl e, w') \<Rightarrow> (Inl e, w')
         | (Inr out, w') \<Rightarrow>
             classifyFrom R s metas (i + batch_size s) (labeled @ out)
               (w'\<lparr>status := StProgress (min (i + batch_size s) (length metas)) (length metas)\<rparr>))
      else (Inr labeled, w))"
  by pat_completeness auto
termination
  by (relation "measure (\<lambda>(R, s, metas, i, labeled, w). length metas - i)")
     (auto simp: batch_size_def)

text \<open>
  The names a fresh \<^verbatim>\<open>{}\<close> inherits from \<^verbatim>\<open>Object.prototype\<close>. Each of them reads as a
  function or an object, which is truthy and has no \<^verbatim>\<open>emails\<close> member.
\<close>

definition inherited :: "string list" where
  "inherited =
     [''constructor'', ''__proto__'', ''hasOwnProperty'', ''isPrototypeOf'',
      ''propertyIsEnumerable'', ''toLocaleString'', ''toString'', ''valueOf'',
      ''__defineGetter__'', ''__defineSetter__'', ''__lookupGetter__'', ''__lookupSetter__'']"

definition sender_key :: "labeled_email \<Rightarrow> string" where
  "sender_key e = (if e_sender e = [] then ''(unknown)'' else e_sender e)"

text \<open>
  One round of the loop of app.js 227-231. When the key is not an own member but an
  inherited name, \<^verbatim>\<open>!grouped[key]\<close> is false, no group is created, and
  \<^verbatim>\<open>grouped[key].emails.push(e)\<close> calls \<^verbatim>\<open>push\<close> of \<^verbatim>\<open>undefined\<close>.
\<close>

definition group_add ::
  "(string \<times> sender_group) list \<Rightarrow> labeled_email \<Rightarrow> error + (string \<times> sender_group) list" where
  "group_add gs e =
     (let key = sender_key e in
      case map_of gs key of
        Some g \<Rightarrow>
          Inr (map (\<lambda>p. if fst p = key then (fst p, (snd p)\<lparr>g_emails := g_emails (snd p) @ [e]\<rparr>)
                         else p) gs)
      | None \<Rightarrow>
          if List.member inherited key then Inl TypeError
          else Inr (gs @ [(key, \<lparr>g_sender = key, g_fromHeaderSample = e_from e, g_emails = [e]\<rparr>)]))"

fun group_from ::
  "(string \<times> sender_group) list \<Rightarrow> labeled_email list \<Rightarrow> error + (string \<times> sender_group) list" where
  "group_from gs [] = Inr gs"
| "group_from gs (e # es) =
     (case group_add gs e of Inl x \<Rightarrow> Inl x | Inr gs' \<Rightarrow> group_from gs' es)"

definition group_emails :: "labeled_email list \<Rightarrow> error + (string \<times> sender_group) list" where
  "group_emails labeled = group_from [] labeled"

subsection \<open>Presentation: render (app.js 249-363)\<close>

text \<open>
  \<^verbatim>\<open>(v || d)\<close> handed to a string method (\<^verbatim>\<open>toLowerCase\<close>, \<^verbatim>\<open>replace\<close> in \<^verbatim>\<open>esc\<close>): a
  truthy value that is not a string has no such method, and the call throws.
\<close>

definition text_or :: "json option \<Rightarrow> string \<Rightarrow> error + string" where
  "text_or v d =
     (case v of
        None \<Rightarrow> Inr d
      | Some j \<Rightarrow>
          if \<not> truthy j then Inr d
          else (case j of JStr t \<Rightarrow> Inr t | _ \<Rightarrow> Inl TypeError))"

text \<open>\<^verbatim>\<open>(e.decision?.action || d).toLowerCase()\<close>.\<close>

definition action_of :: "labeled_email \<Rightarrow> string \<Rightarrow> error + string" where
  "action_of e d =
     (case text_or (read_opt (Some (e_decision e)) ''action'') d of
        Inl x \<Rightarrow> Inl x
      | Inr a \<Rightarrow> Inr (toLowerCase a))"

definition pillClass :: "string \<Rightarrow> string" where
  "pillClass action =
     (let a = toLowerCase (if action = [] then ''review'' else action) in
      if a = ''keep'' then ''keep'' else if a = ''trash'' then ''trash'' else ''review'')"

text \<open>
  \<^verbatim>\<open>emails.filter(e => (e.decision?.action||"").toLowerCase() === name).length\<close>
  (app.js 265-266).
\<close>

definition count_action :: "labeled_email list \<Rightarrow> string \<Rightarrow> error + int" where
  "count_action emails name =
     (case traverse (\<lambda>e. action_of e []) emails of
        Inl x \<Rightarrow> Inl x
      | Inr as \<Rightarrow> Inr (int (length (filter (\<lambda>a. a = name) as))))"

text \<open>One row (app.js 315-331).\<close>

definition render_row :: "labeled_email \<Rightarrow> error + row_view" where
  "render_row e =
     (case action_of e ''review'' of
        Inl x \<Rightarrow> Inl x
      | Inr action \<Rightarrow>
     (case text_or (read_opt (Some (e_decision e)) ''summary'') (e_snippet e) of
        Inl x \<Rightarrow> Inl x
      | Inr snip \<Rightarrow>
     (case text_or (read_opt (Some (e_decision e)) ''category'') ''other'' of
        Inl x \<Rightarrow> Inl x
      | Inr cat \<Rightarrow>
     (case text_or (read_opt (Some (e_decision e)) ''reason'') [] of
        Inl x \<Rightarrow> Inl x
      | Inr reason \<Rightarrow>
          Inr \<lparr>rv_subject = (if e_subject e = [] then ''(no subject)'' else e_subject e),
               rv_snip = snip, rv_action = action, rv_pill = pillClass action, rv_cat = cat,
               rv_date = (if e_date e = [] then None else Some (e_date e)),
               rv_reason = (if reason = [] then None else Some reason),
               rv_trashed = e_trashed e\<rparr>))))"

text \<open>One sender section (app.js 262-291, 314-355).\<close>

definition render_group :: "string \<times> sender_group \<Rightarrow> error + group_view" where
  "render_group p =
     (let emails = g_emails (snd p) in
      case count_action emails ''keep'' of
        Inl x \<Rightarrow> Inl x
      | Inr keepCount \<Rightarrow>
     (case count_action emails ''trash'' of
        Inl x \<Rightarrow> Inl x
      | Inr trashCount \<Rightarrow>
     (case traverse render_row emails of
        Inl x \<Rightarrow> Inl x
      | Inr rows \<Rightarrow>
          Inr \<lparr>gv_sender = fst p, gv_sample = g_fromHeaderSample (snd p),
               gv_total = int (length emails), gv_keep = keepCount, gv_trash = trashCount,
               gv_review = int (length emails) - keepCount - trashCount,
               gv_collapsed = (12 < length emails), gv_rows = rows\<rparr>)))"

text \<open>
  \<^verbatim>\<open>Object.keys(grouped).sort((a,b) => len(b) - len(a))\<close> (app.js 256), each key with its
  group: the own members in insertion order, sorted stably by descending number of
  emails. (JavaScript lists keys that are array indices before the others; that
  changes the order among groups of equal size only.)
\<close>

definition senders :: "(string \<times> sender_group) list \<Rightarrow> (string \<times> sender_group) list" where
  "senders gs = sort_key (\<lambda>p. - int (length (g_emails (snd p)))) gs"

definition render :: "scan_state \<Rightarrow> error + view" where
  "render st =
     (case traverse render_group (senders (grouped st)) of
        Inl x \<Rightarrow> Inl x
      | Inr secs \<Rightarrow>
          Inr \<lparr>v_groups = secs, v_scanned = total st,
               v_keep = sum_list (map gv_keep secs), v_trash = sum_list (map gv_trash secs),
               v_review = sum_list (map gv_review secs)\<rparr>)"

subsection \<open>scan (app.js 208-243)\<close>

text \<open>Listing, metadata and classification (app.js 214-224).\<close>

definition collect :: "remote \<Rightarrow> settings \<Rightarrow> world \<Rightarrow> (error + labeled_email list) \<times> world" where
  "collect R s w =
     (case listMessageIds R (query s) (maxMessages s) w of
        (Inl e, w1) \<Rightarrow> (Inl e, w1)
      | (Inr ids, w1) \<Rightarrow>
          (case getMetas R ids w1 of
             (Inl e, w2) \<Rightarrow> (Inl e, w2)
           | (Inr metas, w2) \<Rightarrow> classifyFrom R s metas 0 [] w2))"

text \<open>
  Grouping, the snapshot, its storage and the first render (app.js 226-242); \<open>now\<close> is
  \<^verbatim>\<open>new Date().toISOString()\<close>.
\<close>

definition finish ::
  "string \<Rightarrow> settings \<Rightarrow> labeled_email list \<Rightarrow> world \<Rightarrow> (error + scan_state) \<times> world" where
  "finish now s labeled w =
     (case group_emails labeled of
        Inl e \<Rightarrow> (Inl e, w)
      | Inr g \<Rightarrow>
          (let st = \<lparr>generatedAt = now, s_query = query s, total = length labeled, grouped = g\<rparr>;
               w' = w\<lparr>ls_last := Some st\<rparr>
           in case render st of
                Inl e \<Rightarrow> (Inl e, w')
              | Inr v \<Rightarrow>
                  (Inr st, w'\<lparr>page := Some v,
                               status := StDone (total st) (s_query st) (generatedAt st)\<rparr>)))"

definition scan :: "remote \<Rightarrow> form \<Rightarrow> string \<Rightarrow> world \<Rightarrow> (error + scan_state) \<times> world" where
  "scan R f now w =
     (let (s, w0) = saveSettings f w in
      case collect R s (w0\<lparr>status := StScanning, page := None\<rparr>) of
        (Inl e, w1) \<Rightarrow> (Inl e, w1)
      | (Inr labeled, w1) \<Rightarrow> finish now s labeled w1)"

text \<open>The click handler of the Scan button (app.js 399-405).\<close>

definition btnScan :: "remote \<Rightarrow> form \<Rightarrow> string \<Rightarrow> world \<Rightarrow> scan_state option \<times> world" where
  "btnScan R f now w =
     (case scan R f now w of
        (Inl e, w') \<Rightarrow> (None, w'\<lparr>status := StErrorText e\<rparr>)
      | (Inr st, w') \<Rightarrow> (Some st, w'))"

subsection \<open>The handlers of a rendered state (app.js 298-312, 344-352)\<close>

text \<open>
  \<^verbatim>\<open>emails.filter(e => (e.decision?.action || "").toLowerCase() === "trash" &&
  !e._trashed).map(e => e.id)\<close> (app.js 299).
\<close>

definition suggested :: "labeled_email list \<Rightarrow> error + string list" where
  "suggested emails =
     (case traverse (\<lambda>e. case action_of e [] of
                            Inl x \<Rightarrow> Inl x
                          | Inr a \<Rightarrow> Inr (a = ''trash'' \<and> \<not> e_trashed e, e_id e)) emails of
        Inl x \<Rightarrow> Inl x
      | Inr ps \<Rightarrow> Inr (map snd (filter fst ps)))"

text \<open>
  \<^verbatim>\<open>for (const id of ids) { try { await trashMessage(id); ok++; } catch (e) { ... } }\<close>
  (app.js 305-307).
\<close>

fun trashEach :: "remote \<Rightarrow> string list \<Rightarrow> nat \<Rightarrow> world \<Rightarrow> nat \<times> world" where
  "trashEach R [] ok w = (ok, w)"
| "trashEach R (i # ids) ok w =
     (case trashMessage R i w of
        (Inl e, w') \<Rightarrow> trashEach R ids ok w'
      | (Inr u, w') \<Rightarrow> trashEach R ids (ok + 1) w')"

text \<open>\<^verbatim>\<open>for (const e of emails) if (ids.includes(e.id)) e._trashed = true\<close> (app.js 308).\<close>

definition mark :: "string list \<Rightarrow> labeled_email list \<Rightarrow> labeled_email list" where
  "mark ids emails = map (\<lambda>e. if List.member ids (e_id e) then e\<lparr>e_trashed := True\<rparr> else e) emails"

definition with_emails ::
  "string \<Rightarrow> labeled_email list \<Rightarrow> scan_state \<Rightarrow> scan_state" where
  "with_emails sender emails st =
     st\<lparr>grouped := map (\<lambda>p. if fst p = sender then (fst p, (snd p)\<lparr>g_emails := emails\<rparr>) else p)
                        (grouped st)\<rparr>"

text \<open>
  The "Trash suggested" handler of the section of \<open>sender\<close>; \<open>confirmed\<close> is the answer
  to \<^verbatim>\<open>confirm(...)\<close>. The result is what the handler's promise settles to, the state
  object after it, and the page.
\<close>

definition trashSuggested ::
  "remote \<Rightarrow> bool \<Rightarrow> string \<Rightarrow> scan_state \<Rightarrow> world \<Rightarrow> (error + unit) \<times> scan_state \<times> world" where
  "trashSuggested R confirmed sender st w =
     (case map_of (grouped st) sender of
        None \<Rightarrow> (Inr (), st, w)
      | Some g \<Rightarrow>
          (case suggested (g_emails g) of
             Inl x \<Rightarrow> (Inl x, st, w)
           | Inr ids \<Rightarrow>
               if ids = [] then (Inr (), st, w)
               else if \<not> confirmed then (Inr (), st, w)
               else
                 (let (ok, w1) = trashEach R ids 0 (w\<lparr>status := StTrashing (length ids)\<rparr>);
                      st' = with_emails sender (mark ids (g_emails g)) st;
                      w2 = w1\<lparr>ls_last := Some st'\<rparr>
                  in case render st' of
                       Inl x \<Rightarrow> (Inl x, st', w2)
                     | Inr v \<Rightarrow>
                         (Inr (), st',
                          w2\<lparr>page := Some v, status := StTrashedCount ok (length ids)\<rparr>))))"

text \<open>
  The "Trash" handler of row \<open>i\<close> of the section of \<open>sender\<close> (app.js 344-352): the
  \<^verbatim>\<open>await trashMessage(e.id)\<close> is not inside a \<^verbatim>\<open>try\<close>.
\<close>

definition manualTrash ::
  "remote \<Rightarrow> bool \<Rightarrow> string \<Rightarrow> nat \<Rightarrow> scan_state \<Rightarrow> world
     \<Rightarrow> (error + unit) \<times> scan_state \<times> world" where
  "manualTrash R confirmed sender i st w =
     (case map_of (grouped st) sender of
        None \<Rightarrow> (Inr (), st, w)
      | Some g \<Rightarrow>
          if \<not> i < length (g_emails g) then (Inr (), st, w)
          else if \<not> confirmed then (Inr (), st, w)
          else
            (case trashMessage R (e_id (g_emails g ! i)) (w\<lparr>status := StTrashingOne\<rparr>) of
               (Inl x, w1) \<Rightarrow> (Inl x, st, w1)
             | (Inr u, w1) \<Rightarrow>
                 (let st' = with_emails sender
                              ((g_emails g)[i := (g_emails g ! i)\<lparr>e_trashed := True\<rparr>]) st;
                      w2 = w1\<lparr>ls_last := Some st'\<rparr>
                  in case render st' of
                       Inl x \<Rightarrow> (Inl x, st', w2)
                     | Inr v \<Rightarrow> (Inr (), st', w2\<lparr>page := Some v, status := StTrashedOne\<rparr>))))"

subsection \<open>Predicates of the statements\<close>

text \<open>
  The message content has no decisions to offer and can be decoded: it is absent or
  empty, or it is JSON text for a value other than \<^verbatim>\<open>null\<close> whose \<^verbatim>\<open>decisions\<close> member
  is missing or is not an array.
\<close>

definition lacks_decisions :: "content \<Rightarrow> bool" where
  "lacks_decisions c =
     (case c of
        ContentAbsent \<Rightarrow> True
      | ContentMalformed \<Rightarrow> False
      | ContentJson v \<Rightarrow>
          (case v of
             JNull \<Rightarrow> False
           | JObj kvs \<Rightarrow>
               (case map_of (rev kvs) ''decisions'' of Some (JArr ds) \<Rightarrow> False | _ \<Rightarrow> True)
           | _ \<Rightarrow> True))"

text \<open>The \<^verbatim>\<open>id\<close> members of the elements of the response's \<^verbatim>\<open>decisions\<close> array.\<close>

definition response_ids :: "content \<Rightarrow> json option list" where
  "response_ids c =
     (case c of
        ContentJson (JObj kvs) \<Rightarrow>
          (case map_of (rev kvs) ''decisions'' of
             Some (JArr ds) \<Rightarrow> map (\<lambda>d. read_opt (Some d) ''id'') ds
           | _ \<Rightarrow> [])
      | _ \<Rightarrow> [])"

subsection \<open>Example inputs\<close>

definition example_settings :: settings where
  "example_settings =
     \<lparr>googleClientId = ''client'', groqKey = ''gsk'', groqModel = ''llama-3.1-8b-instant'',
      batchSize = 10, maxMessages = 50, query = ''category:promotions''\<rparr>"

definition mail :: "string \<Rightarrow> string \<Rightarrow> message_meta" where
  "mail i sender =
     \<lparr>e_id = i, e_from = sender, e_to = ''me@example.org'', e_subject = ''Hello'',
      e_date = ''Mon, 1 Jan 2024'', e_snippet = ''text'', e_sender = sender\<rparr>"

definition decided :: "string \<Rightarrow> string \<Rightarrow> json" where
  "decided i action = JObj [(''id'', JStr i), (''action'', JStr action)]"

text \<open>
  A decision member that a string method accepts after \<^verbatim>\<open>||\<close>: absent, falsy, or a
  string (also an empty or an unrecognized one).
\<close>

definition stringy :: "json option \<Rightarrow> bool" where
  "stringy v = (case v of None \<Rightarrow> True | Some (JStr t) \<Rightarrow> True | Some j \<Rightarrow> \<not> truthy j)"

definition renderable :: "labeled_email \<Rightarrow> bool" where
  "renderable e =
     (stringy (read_opt (Some (e_decision e)) ''action'') \<and>
      stringy (read_opt (Some (e_decision e)) ''summary'') \<and>
      stringy (read_opt (Some (e_decision e)) ''category'') \<and>
      stringy (read_opt (Some (e_decision e)) ''reason''))"

text \<open>The email's action, lower-cased, is \<open>name\<close>.\<close>

definition has_action :: "string \<Rightarrow> labeled_email \<Rightarrow> bool" where
  "has_action name e = (action_of e [] = Inr name)"

text \<open>
  The section shows the group's counts: the emails, those whose action is keep, those
  whose action is trash, and as review all the others.
\<close>

definition shows_counts :: "sender_group \<Rightarrow> group_view \<Rightarrow> bool" where
  "shows_counts grp g =
     (gv_total g = int (length (g_emails grp)) \<and>
      gv_keep g = int (length (filter (has_action ''keep'') (g_emails grp))) \<and>
      gv_trash g = int (length (filter (has_action ''trash'') (g_emails grp))) \<and>
      gv_review g = int (length (filter (\<lambda>e. \<not> has_action ''keep'' e \<and> \<not> has_action ''trash'' e)
                                   (g_emails grp))))"

text \<open>
  A state of two groups: actions \<^verbatim>\<open>KEEP\<close>, \<^verbatim>\<open>trash\<close> and the unrecognized \<^verbatim>\<open>archive\<close> in
  one, a decision without action and one with an empty action in the other.
\<close>

definition example_view_state :: scan_state where
  "example_view_state =
     \<lparr>generatedAt = ''2024-01-01T00:00:00.000Z'', s_query = ''category:promotions'', total = 5,
      grouped =
        [(''b@x.example'',
          \<lparr>g_sender = ''b@x.example'', g_fromHeaderSample = ''b@x.example'',
           g_emails = [with_decision (mail ''m4'' ''b@x.example'') (JObj [(''id'', JStr ''m4'')]),
                       with_decision (mail ''m5'' ''b@x.example'') (decided ''m5'' [])]\<rparr>),
         (''a@x.example'',
          \<lparr>g_sender = ''a@x.example'', g_fromHeaderSample = ''a@x.example'',
           g_emails = [with_decision (mail ''m1'' ''a@x.example'') (decided ''m1'' ''KEEP''),
                       with_decision (mail ''m2'' ''a@x.example'') (decided ''m2'' ''trash''),
                       with_decision (mail ''m3'' ''a@x.example'') (decided ''m3'' ''archive'')]\<rparr>)]\<rparr>"

text \<open>
  The loop invariant of the grouping (app.js 227-231) after the emails \<open>seen\<close>: the keys
  are distinct, each group holds, in order, the emails seen so far whose key is the
  group's, no group is empty, every email seen has its group, and no key is an
  inherited name.
\<close>

definition grouped_upto :: "(string \<times> sender_group) list \<Rightarrow> labeled_email list \<Rightarrow> bool" where
  "grouped_upto gs seen =
     (distinct (map fst gs) \<and>
      list_all (\<lambda>p. g_sender (snd p) = fst p \<and> g_emails (snd p) \<noteq> [] \<and>
                    g_emails (snd p) = filter (\<lambda>e. sender_key e = fst p) seen) gs \<and>
      list_all (\<lambda>e. sender_key e \<in> set (map fst gs)) seen \<and>
      list_all (\<lambda>p. \<not> List.member inherited (fst p)) gs)"

definition example_labeled :: "labeled_email list" where
  "example_labeled =
     [with_decision (mail ''m1'' ''b@x.example'') (decided ''m1'' ''keep''),
      with_decision (mail ''m2'' ''a@x.example'') (decided ''m2'' ''trash''),
      with_decision (mail ''m3'' ''a@x.example'') (decided ''m3'' ''review'')]"

text \<open>
  The calls made between two moments, and what a run from \<open>w\<close> to \<open>w'\<close> leaves behind:
  the log only grows, every call made returned normally (when \<open>ok\<close>) or every call but
  the last one did (otherwise: a call that failed is the last call made), and the
  stored snapshot is the same.
\<close>

definition new_calls :: "world \<Rightarrow> world \<Rightarrow> (call \<times> bool) list" where
  "new_calls w w' = drop (length (calls w)) (calls w')"

definition ran :: "world \<Rightarrow> world \<Rightarrow> bool \<Rightarrow> bool" where
  "ran w w' ok =
     (take (length (calls w)) (calls w') = calls w \<and>
      list_all snd (if ok then new_calls w w' else butlast (new_calls w w')) \<and>
      ls_last w' = ls_last w)"

text \<open>
  A remote that lists three messages, serves their metadata, trashes only \<^verbatim>\<open>t1\<close>, and
  answers the chat call until its rate limit is reached at the sixth call.
\<close>

definition example_remote :: remote where
  "example_remote =
     \<lparr>r_list = (\<lambda>n q m. HttpOk [''m1'', ''m2'', ''m3'']),
      r_get = (\<lambda>n i. HttpOk \<lparr>headers = [(''From'', ''Shop <News@Shop.example>''),
                                         (''Subject'', ''Sale'')],
                              snippet = ''50% off''\<rparr>),
      r_trash = (\<lambda>n i. if i = ''t1'' then HttpOk () else HttpError 500 ''backend error''),
      r_chat = (\<lambda>n rq. if n < 5 then HttpOk (ContentJson (JObj [(''decisions'', JArr [])]))
                        else HttpError 429 ''rate limit'')\<rparr>"

definition example_form :: form where
  "example_form =
     \<lparr>f_googleClientId = ''client'', f_groqKey = ''gsk'', f_groqModel = ''llama-3.1-8b-instant'',
      f_batchSize = Some 2, f_maxMessages = None, f_query = '' category:promotions ''\<rparr>"

text \<open>One group of five emails, three of them with action trash.\<close>

definition example_trash_state :: scan_state where
  "example_trash_state =
     \<lparr>generatedAt = ''2024-01-01T00:00:00.000Z'', s_query = ''category:promotions'', total = 5,
      grouped =
        [(''a@x.example'',
          \<lparr>g_sender = ''a@x.example'', g_fromHeaderSample = ''a@x.example'',
           g_emails = [with_decision (mail ''t1'' ''a@x.example'') (decided ''t1'' ''trash''),
                       with_decision (mail ''t2'' ''a@x.example'') (decided ''t2'' ''trash''),
                       with_decision (mail ''t3'' ''a@x.example'') (decided ''t3'' ''trash''),
                       with_decision (mail ''k1'' ''a@x.example'') (decided ''k1'' ''keep''),
                       with_decision (mail ''r1'' ''a@x.example'') (decided ''r1'' ''review'')]\<rparr>)]\<rparr>"

definition example_world :: world where
  "example_world =
     \<lparr>accessToken = Some ''token'', ls_settings = None, ls_last = Some example_trash_state,
      status = StNone, page = None, calls = []\<rparr>"

text \<open>
  What a remote call may carry: a chat request whose user message is an object with
  the one member \<^verbatim>\<open>emails\<close>, an array of objects that each have exactly the six members
  id, from, to, subject, date and snippet, all strings; a message request in the
  metadata format for the four headers; a listing or a trash request.
\<close>

definition six_members :: "json \<Rightarrow> bool" where
  "six_members v =
     (case v of
        JObj kvs \<Rightarrow>
          map fst kvs = [''id'', ''from'', ''to'', ''subject'', ''date'', ''snippet''] \<and>
          list_all (\<lambda>p. case snd p of JStr t \<Rightarrow> True | _ \<Rightarrow> False) kvs
      | _ \<Rightarrow> False)"

definition metadata_only :: "call \<Rightarrow> bool" where
  "metadata_only c =
     (case c of
        ListCall q m \<Rightarrow> True
      | GetCall i ps \<Rightarrow>
          ps = [(''format'', ''metadata''), (''metadataHeaders'', ''From''),
                (''metadataHeaders'', ''To''), (''metadataHeaders'', ''Subject''),
                (''metadataHeaders'', ''Date'')]
      | TrashCall i \<Rightarrow> True
      | ChatCall rq \<Rightarrow>
          (case rq_user rq of
             JObj kvs \<Rightarrow>
               map fst kvs = [''emails''] \<and>
               list_all (\<lambda>p. case snd p of JArr objs \<Rightarrow> list_all six_members objs | _ \<Rightarrow> False) kvs
           | _ \<Rightarrow> False))"

text \<open>Every call made from \<open>w\<close> to \<open>w'\<close> is such a call.\<close>

definition sent_only :: "world \<Rightarrow> world \<Rightarrow> bool" where
  "sent_only w w' =
     (take (length (calls w)) (calls w') = calls w \<and>
      list_all (\<lambda>c. metadata_only (fst c)) (new_calls w w'))"

text \<open>
  A From header with a quoted display name in angle brackets before the address, and a
  remote whose first message carries it.
\<close>

definition spoofed_from :: string where
  "spoofed_from = CHR 0x22 # ''<constructor>'' @ [CHR 0x22] @ '' <promo@shop.example>''"

definition spoof_remote :: remote where
  "spoof_remote =
     \<lparr>r_list = (\<lambda>n q m. HttpOk [''m1'', ''m2'']),
      r_get = (\<lambda>n i. HttpOk \<lparr>headers = [(''From'', if i = ''m1'' then spoofed_from
                                                   else ''Shop <news@shop.example>''),
                                         (''Subject'', ''Sale'')],
                              snippet = ''50% off''\<rparr>),
      r_trash = (\<lambda>n i. HttpOk ()),
      r_chat = (\<lambda>n rq. HttpOk (ContentJson (JObj [(''decisions'',
                  JArr [decided ''m1'' ''trash'', decided ''m2'' ''keep''])])))\<rparr>"

section \<open>Properties\<close>

subsection \<open>Helper lemmas\<close>

lemma with_decision_sel [simp]:
  "e_id (with_decision e d) = e_id e"
  "e_from (with_decision e d) = e_from e"
  "e_sender (with_decision e d) = e_sender e"
  "e_decision (with_decision e d) = d"
  "e_trashed (with_decision e d) = False"
  "message_meta.truncate (with_decision e d) = e"
  by (simp_all add: with_decision_def message_meta.defs labeled_email.defs)

lemma traverse_entry_of:
  "traverse entry_of ds = Inr byId \<Longrightarrow> map fst byId = map (\<lambda>d. read_opt (Some d) ''id'') ds"
proof (induction ds arbitrary: byId)
  case Nil
  then show ?case by simp
next
  case (Cons d ds)
  then show ?case
    by (cases d) (auto simp: entry_of_def split: sum.splits)
qed

lemma byId_get_absent:
  "Some (JStr i) \<notin> set (map fst byId) \<Longrightarrow> byId_get byId i = None"
  by (force simp: byId_get_def find_None_iff)

lemma decode_cases:
  assumes "groqClassifyBatch s emails res = Inr out"
  obtains c parsed ds byId where
    "res = HttpOk c" "parse_content c = Inr parsed" "decisions_of parsed = Inr ds"
    "traverse entry_of ds = Inr byId" "out = map (attach byId) emails"
  using assms
  by (auto simp: groqClassifyBatch_def decode_def split: if_splits http.splits sum.splits)

subsection \<open>normalizeSender\<close>

lemma normalizeSender_empty:
  "normalizeSender None = ''(unknown)''" "normalizeSender (Some []) = ''(unknown)''"
  by (simp_all add: normalizeSender_def trim_def toLowerCase_def)

lemma lower_char_eq_iff:
  "lower_char c = CHR ''<'' \<longleftrightarrow> c = CHR ''<''"
  "lower_char c = CHR ''>'' \<longleftrightarrow> c = CHR ''>''"
  "is_space (lower_char c) = is_space c"
  "lower_char (lower_char c) = lower_char c"
  by (auto simp: lower_char_def is_space_def split: if_splits)

lemma toLowerCase_idem: "toLowerCase (toLowerCase s) = toLowerCase s"
  by (simp add: toLowerCase_def lower_char_eq_iff)

lemma trim_toLowerCase: "trim (toLowerCase s) = toLowerCase (trim s)"
  by (simp add: trim_def toLowerCase_def dropWhile_map rev_map comp_def lower_char_eq_iff)

lemma dropWhile_front:
  assumes "dropWhile P a = a"
  shows "dropWhile P (rev (dropWhile P (rev a))) = rev (dropWhile P (rev a))"
proof (cases a)
  case Nil
  then show ?thesis by simp
next
  case (Cons x a')
  with assms have "\<not> P x"
    by (metis dropWhile_eq_Cons_conv)
  then show ?thesis
    unfolding Cons by (simp add: dropWhile_append)
qed

lemma trim_idem: "trim (trim s) = trim s"
proof -
  let ?a = "dropWhile is_space s"
  have "dropWhile is_space ?a = ?a" by simp
  from dropWhile_front [OF this] show ?thesis
    by (simp add: trim_def)
qed

lemma angle_match_map:
  "angle_match (map lower_char s) = map_option (map lower_char) (angle_match s)"
proof (induction s)
  case Nil
  then show ?case by simp
next
  case (Cons c s)
  have "takeWhile (\<lambda>x. x \<noteq> CHR ''>'') (map lower_char s)
      = map lower_char (takeWhile (\<lambda>x. x \<noteq> CHR ''>'') s)"
    by (simp add: takeWhile_map comp_def lower_char_eq_iff)
  with Cons show ?case
    by (simp add: lower_char_eq_iff Let_def)
qed

lemma angle_match_tl: "angle_match (c # s) = None \<Longrightarrow> angle_match s = None"
  by (simp add: Let_def split: if_splits)

lemma angle_match_suffix: "angle_match (p @ s) = None \<Longrightarrow> angle_match s = None"
  by (induction p) (auto dest: angle_match_tl simp del: angle_match.simps)

lemma angle_match_prefix: "angle_match (p @ q) = None \<Longrightarrow> angle_match p = None"
proof (induction p)
  case Nil
  then show ?case by simp
next
  case (Cons c p)
  from Cons.prems have "angle_match (p @ q) = None"
    by (auto dest: angle_match_tl simp del: angle_match.simps)
  then have ih: "angle_match p = None" by (rule Cons.IH)
  show ?case
  proof (cases "c = CHR ''<'' \<and> takeWhile (\<lambda>x. x \<noteq> CHR ''>'') p \<noteq> []
                 \<and> length (takeWhile (\<lambda>x. x \<noteq> CHR ''>'') p) < length p")
    case False
    with ih show ?thesis
      by (cases "c = CHR ''<''") (simp_all add: Let_def)
  next
    case True
    have "CHR ''>'' \<in> set p"
    proof (rule ccontr)
      assume "CHR ''>'' \<notin> set p"
      then have "length (takeWhile (\<lambda>x. x \<noteq> CHR ''>'') p) = length p"
        by (auto intro: arg_cong [where f = length] takeWhile_eq_all_conv [THEN iffD2])
      with True show False by simp
    qed
    then have "takeWhile (\<lambda>x. x \<noteq> CHR ''>'') (p @ q) = takeWhile (\<lambda>x. x \<noteq> CHR ''>'') p"
      by (intro takeWhile_append1) auto
    with True Cons.prems show ?thesis
      by (simp add: Let_def)
  qed
qed

lemma angle_match_trim: "angle_match s = None \<Longrightarrow> angle_match (trim s) = None"
proof -
  assume a: "angle_match s = None"
  have "s = takeWhile is_space s @ dropWhile is_space s" by simp
  with a have b: "angle_match (dropWhile is_space s) = None"
    by (metis angle_match_suffix)
  let ?a = "dropWhile is_space s"
  have "rev ?a = takeWhile is_space (rev ?a) @ dropWhile is_space (rev ?a)" by simp
  then have "?a = rev (dropWhile is_space (rev ?a)) @ rev (takeWhile is_space (rev ?a))"
    by (metis rev_append rev_rev_ident)
  with b have "angle_match (rev (dropWhile is_space (rev ?a))) = None"
    by (metis angle_match_prefix)
  then show ?thesis by (simp add: trim_def)
qed

lemma angle_match_no_gt: "angle_match s = Some g \<Longrightarrow> CHR ''>'' \<notin> set g"
proof (induction s)
  case Nil
  then show ?case by simp
next
  case (Cons c s)
  then show ?case
    by (auto simp: Let_def split: if_splits dest: set_takeWhileD)
qed

lemma no_gt_no_match: "CHR ''>'' \<notin> set s \<Longrightarrow> angle_match s = None"
proof (induction s)
  case Nil
  then show ?case by simp
next
  case (Cons c s)
  then have "length (takeWhile (\<lambda>x. x \<noteq> CHR ''>'') s) = length s"
    by (auto intro: arg_cong [where f = length] takeWhile_eq_all_conv [THEN iffD2])
  with Cons show ?case by (simp add: Let_def)
qed

lemma set_trim: "set (trim s) \<subseteq> set s"
  by (auto simp: trim_def dest!: set_dropWhileD)

lemma normalizeSender_idem:
  assumes "normalizeSender (Some s) \<noteq> []"
  shows "normalizeSender (Some (normalizeSender (Some s))) = normalizeSender (Some s)"
proof (cases "angle_match s")
  case (Some g)
  then have n: "normalizeSender (Some s) = toLowerCase (trim g)"
    by (simp add: normalizeSender_def)
  from angle_match_no_gt [OF Some] set_trim [of g]
  have "\<forall>x\<in>set (trim g). lower_char x \<noteq> CHR ''>''"
    by (auto simp: lower_char_eq_iff)
  then have "CHR ''>'' \<notin> set (toLowerCase (trim g))"
    by (auto simp: toLowerCase_def)
  then have "angle_match (toLowerCase (trim g)) = None"
    by (rule no_gt_no_match)
  moreover have "toLowerCase (trim (toLowerCase (trim g))) = toLowerCase (trim g)"
    by (simp add: trim_toLowerCase trim_idem toLowerCase_idem)
  ultimately show ?thesis
    using assms n by (simp add: normalizeSender_def)
next
  case None
  show ?thesis
  proof (cases "toLowerCase (trim s) = []")
    case True
    with None have "normalizeSender (Some s) = ''(unknown)''"
      by (simp add: normalizeSender_def)
    moreover have "normalizeSender (Some ''(unknown)'') = ''(unknown)''"
      by (simp add: normalizeSender_def trim_def toLowerCase_def is_space_def lower_char_def)
    ultimately show ?thesis by simp
  next
    case False
    with None have n: "normalizeSender (Some s) = toLowerCase (trim s)"
      by (simp add: normalizeSender_def)
    from angle_match_trim [OF None]
    have "angle_match (toLowerCase (trim s)) = None"
      by (simp add: toLowerCase_def angle_match_map)
    moreover have "toLowerCase (trim (toLowerCase (trim s))) = toLowerCase (trim s)"
      by (simp add: trim_toLowerCase trim_idem toLowerCase_idem)
    ultimately show ?thesis
      using False n by (simp add: normalizeSender_def)
  qed
qed

text \<open>
  Normalizing twice is normalizing once whenever the first result is not empty
  (\<open>normalizeSender_idem\<close>).

  C5. Sender normalization is total, and an empty or absent header gives the sentinel
  (\<open>normalizeSender_empty\<close>), but it is not idempotent: a header whose bracketed part is
  blank is normalized to the empty string, and the empty string is normalized to
  \<^verbatim>\<open>(unknown)\<close>.
\<close>

theorem normalizeSender_blank_address:
  "normalizeSender (Some ''< >'') = [] \<and>
   normalizeSender (Some (normalizeSender (Some ''< >''))) = ''(unknown)''"
  by (simp add: normalizeSender_def trim_def toLowerCase_def is_space_def)

subsection \<open>groqClassifyBatch\<close>

text \<open>
  C2, as stated, fails: when the message content is text that \<^verbatim>\<open>JSON.parse\<close> rejects,
  groqClassifyBatch throws the SyntaxError.
\<close>

theorem malformed_content_raises:
  "groqClassifyBatch example_settings [mail ''m1'' ''a@x.example''] (HttpOk ContentMalformed)
     = Inl SyntaxError"
  by (simp add: groqClassifyBatch_def decode_def example_settings_def)

text \<open>
  C2, amended. With an API key and a successful HTTP answer: when the message content
  is absent or empty, or is JSON for a value other than null without an array under
  \<^verbatim>\<open>decisions\<close>, groqClassifyBatch returns every input email, in order, with the
  default decision; when the content is malformed JSON it throws the SyntaxError of
  \<^verbatim>\<open>JSON.parse\<close>.
\<close>

theorem groqClassifyBatch_without_decisions:
  assumes "groqKey s \<noteq> []"
  shows "(lacks_decisions c \<longrightarrow>
            groqClassifyBatch s emails (HttpOk c)
              = Inr (map (\<lambda>e. with_decision e (default_decision (e_id e))) emails)) \<and>
         groqClassifyBatch s emails (HttpOk ContentMalformed) = Inl SyntaxError"
proof (intro conjI impI)
  assume "lacks_decisions c"
  with assms show "groqClassifyBatch s emails (HttpOk c)
      = Inr (map (\<lambda>e. with_decision e (default_decision (e_id e))) emails)"
    by (auto simp: groqClassifyBatch_def decode_def lacks_decisions_def decisions_of_def
          attach_def byId_get_def
        split: content.splits json.splits option.splits)
next
  from assms show "groqClassifyBatch s emails (HttpOk ContentMalformed) = Inl SyntaxError"
    by (simp add: groqClassifyBatch_def decode_def)
qed

theorem groqClassifyBatch_without_decisions_witness:
  "groqKey example_settings \<noteq> [] \<and>
   lacks_decisions (ContentJson (JObj [(''decisions'', JStr ''none'')])) \<and>
   groqClassifyBatch example_settings [mail ''m1'' ''a@x.example'', mail ''m2'' ''b@x.example'']
       (HttpOk (ContentJson (JObj [(''decisions'', JStr ''none'')])))
     = Inr [with_decision (mail ''m1'' ''a@x.example'') (default_decision ''m1''),
            with_decision (mail ''m2'' ''b@x.example'') (default_decision ''m2'')] \<and>
   groqClassifyBatch example_settings [mail ''m1'' ''a@x.example'', mail ''m2'' ''b@x.example'']
       (HttpOk ContentMalformed)
     = Inl SyntaxError"
proof -
  have k: "groqKey example_settings \<noteq> []"
    by (simp add: example_settings_def)
  have l: "lacks_decisions (ContentJson (JObj [(''decisions'', JStr ''none'')]))"
    by (simp add: lacks_decisions_def)
  from groqClassifyBatch_without_decisions [OF k,
      of "ContentJson (JObj [(''decisions'', JStr ''none'')])"
         "[mail ''m1'' ''a@x.example'', mail ''m2'' ''b@x.example'']"] l k
  show ?thesis by (simp add: mail_def)
qed

text \<open>
  C3, as stated, fails: the decision attached to an email that the response does not
  mention carries the email's id, and its reason is the text \<^verbatim>\<open>No decision.\<close>
\<close>

theorem default_decision_differs:
  "groqClassifyBatch example_settings [mail ''m1'' ''a@x.example'']
       (HttpOk (ContentJson (JObj [(''decisions'', JArr [])])))
     = Inr [with_decision (mail ''m1'' ''a@x.example'') (default_decision ''m1'')] \<and>
   read_opt (Some (default_decision ''m1'')) ''reason'' = Some (JStr ''No decision.'') \<and>
   default_decision ''m1'' \<noteq>
     JObj [(''action'', JStr ''review''), (''category'', JStr ''other''),
           (''summary'', JStr []), (''reason'', JStr ''no decision'')]"
  by (simp add: groqClassifyBatch_def decode_def example_settings_def decisions_of_def
        attach_def byId_get_def default_decision_def mail_def)

text \<open>
  C3, amended. Whenever groqClassifyBatch returns, every input email whose id is not
  the \<^verbatim>\<open>id\<close> of an element of the response's \<^verbatim>\<open>decisions\<close> array is returned with
  exactly the decision \<^verbatim>\<open>{id: <its id>, action: "review", category: "other", summary: "",
  reason: "No decision."}\<close>.
\<close>

theorem default_decision_when_absent:
  assumes "groqClassifyBatch s emails (HttpOk c) = Inr out"
    and "n < length emails"
    and "Some (JStr (e_id (emails ! n))) \<notin> set (response_ids c)"
  shows "out ! n =
           with_decision (emails ! n)
             (JObj [(''id'', JStr (e_id (emails ! n))), (''action'', JStr ''review''),
                    (''category'', JStr ''other''), (''summary'', JStr []),
                    (''reason'', JStr ''No decision.'')])"
proof -
  from assms(1) obtain parsed ds byId where
    p: "parse_content c = Inr parsed" and d: "decisions_of parsed = Inr ds"
    and t: "traverse entry_of ds = Inr byId" and o: "out = map (attach byId) emails"
    by (auto elim: decode_cases)
  have "map (\<lambda>d. read_opt (Some d) ''id'') ds = response_ids c"
    using p d
    by (cases c) (auto simp: response_ids_def decisions_of_def split: json.splits option.splits)
  with traverse_entry_of [OF t] assms(3) have "byId_get byId (e_id (emails ! n)) = None"
    by (intro byId_get_absent) simp
  with o assms(2) show ?thesis
    by (simp add: attach_def default_decision_def)
qed

theorem default_decision_when_absent_witness:
  "groqClassifyBatch example_settings [mail ''m1'' ''a@x.example'', mail ''m2'' ''b@x.example'']
       (HttpOk (ContentJson (JObj [(''decisions'', JArr [decided ''m1'' ''trash''])])))
     = Inr [with_decision (mail ''m1'' ''a@x.example'') (decided ''m1'' ''trash''),
            with_decision (mail ''m2'' ''b@x.example'')
              (JObj [(''id'', JStr ''m2''), (''action'', JStr ''review''),
                     (''category'', JStr ''other''), (''summary'', JStr []),
                     (''reason'', JStr ''No decision.'')])]"
proof -
  let ?c = "ContentJson (JObj [(''decisions'', JArr [decided ''m1'' ''trash''])])"
  let ?emails = "[mail ''m1'' ''a@x.example'', mail ''m2'' ''b@x.example'']"
  let ?out = "[with_decision (mail ''m1'' ''a@x.example'') (decided ''m1'' ''trash''),
               with_decision (mail ''m2'' ''b@x.example'') (default_decision ''m2'')]"
  have r: "groqClassifyBatch example_settings ?emails (HttpOk ?c) = Inr ?out"
    by (simp add: groqClassifyBatch_def decode_def example_settings_def decisions_of_def
          entry_of_def attach_def byId_get_def decided_def mail_def)
  have n: "(1::nat) < length ?emails"
    by simp
  have a: "Some (JStr (e_id (?emails ! 1))) \<notin> set (response_ids ?c)"
    by (simp add: response_ids_def decided_def mail_def)
  from default_decision_when_absent [OF r n a] r show ?thesis
    by (simp add: mail_def)
qed

text \<open>
  C4. Whenever groqClassifyBatch returns, it returns one labeled email per input
  email, in the input's order: each is the input email with a decision added, so the
  ids are the same in the same order, whatever the response lists and in whatever
  order.
\<close>

theorem groqClassifyBatch_keeps_order:
  assumes "groqClassifyBatch s emails res = Inr out"
  shows "length out = length emails \<and> map e_id out = map e_id emails \<and>
         map message_meta.truncate out = emails"
proof -
  from assms obtain byId where "out = map (attach byId) emails"
    by (auto elim: decode_cases)
  then show ?thesis
    by (simp add: attach_def comp_def)
qed

theorem groqClassifyBatch_keeps_order_witness:
  "groqClassifyBatch example_settings [mail ''m1'' ''a@x.example'', mail ''m2'' ''b@x.example'']
       (HttpOk (ContentJson (JObj [(''decisions'',
          JArr [decided ''m2'' ''keep'', decided ''zz'' ''trash'', decided ''m1'' ''trash''])])))
     = Inr [with_decision (mail ''m1'' ''a@x.example'') (decided ''m1'' ''trash''),
            with_decision (mail ''m2'' ''b@x.example'') (decided ''m2'' ''keep'')] \<and>
   map e_id [with_decision (mail ''m1'' ''a@x.example'') (decided ''m1'' ''trash''),
             with_decision (mail ''m2'' ''b@x.example'') (decided ''m2'' ''keep'')]
     = [''m1'', ''m2'']"
proof -
  let ?res = "HttpOk (ContentJson (JObj [(''decisions'',
          JArr [decided ''m2'' ''keep'', decided ''zz'' ''trash'', decided ''m1'' ''trash''])]))"
  let ?emails = "[mail ''m1'' ''a@x.example'', mail ''m2'' ''b@x.example'']"
  let ?out = "[with_decision (mail ''m1'' ''a@x.example'') (decided ''m1'' ''trash''),
               with_decision (mail ''m2'' ''b@x.example'') (decided ''m2'' ''keep'')]"
  have r: "groqClassifyBatch example_settings ?emails ?res = Inr ?out"
    by (simp add: groqClassifyBatch_def decode_def example_settings_def decisions_of_def
          entry_of_def attach_def byId_get_def decided_def mail_def)
  from groqClassifyBatch_keeps_order [OF r] r show ?thesis
    by (simp add: mail_def)
qed

subsection \<open>render\<close>

lemma returned_simps [simp]: "returned (Inl e) = False" "returned (Inr v) = True"
  by (simp_all add: returned_def)

lemma returned_iff: "returned r \<longleftrightarrow> (\<exists>v. r = Inr v)"
  by (cases r) simp_all

lemma traverse_returned: "returned (traverse f xs) = list_all (\<lambda>x. returned (f x)) xs"
  by (induction xs) (auto split: sum.splits)

lemma traverse_map: "traverse f xs = Inr ys \<Longrightarrow> map f xs = map Inr ys"
  by (induction xs arbitrary: ys) (auto split: sum.splits)

lemma text_or_returned: "returned (text_or v d) = stringy v"
  by (auto simp: text_or_def stringy_def split: option.splits json.splits)

lemma action_of_returned:
  "returned (action_of e d) = stringy (read_opt (Some (e_decision e)) ''action'')"
  using text_or_returned [of "read_opt (Some (e_decision e)) ''action''" d]
  by (auto simp: action_of_def split: sum.splits)

lemma render_row_returned: "returned (render_row e) = renderable e"
  using text_or_returned [of "read_opt (Some (e_decision e)) ''summary''" "e_snippet e"]
    text_or_returned [of "read_opt (Some (e_decision e)) ''category''" "''other''"]
    text_or_returned [of "read_opt (Some (e_decision e)) ''reason''" "[]"]
    action_of_returned [of e "''review''"]
  by (auto simp: render_row_def renderable_def split: sum.splits)

lemma count_action_returned:
  "returned (count_action emails name) =
     list_all (\<lambda>e. stringy (read_opt (Some (e_decision e)) ''action'')) emails"
proof -
  have "returned (count_action emails name) = returned (traverse (\<lambda>e. action_of e []) emails)"
    by (simp add: count_action_def split: sum.splits)
  then show ?thesis
    by (simp add: traverse_returned action_of_returned)
qed

lemma count_action_value:
  assumes "count_action emails name = Inr k"
  shows "k = int (length (filter (\<lambda>e. action_of e [] = Inr name) emails))"
proof -
  from assms obtain as where t: "traverse (\<lambda>e. action_of e []) emails = Inr as"
    and k: "k = int (length (filter (\<lambda>a. a = name) as))"
    by (auto simp: count_action_def split: sum.splits)
  have "length (filter (\<lambda>a. a = name) as) = length (filter (\<lambda>r. r = Inr name) (map (Inr :: string \<Rightarrow> error + string) as))"
    by (simp add: filter_map comp_def)
  also have "\<dots> = length (filter (\<lambda>r. r = Inr name) (map (\<lambda>e. action_of e []) emails))"
    using traverse_map [OF t] by simp
  also have "\<dots> = length (filter (\<lambda>e. action_of e [] = Inr name) emails)"
    by (simp add: filter_map comp_def)
  finally show ?thesis using k by simp
qed

lemma length_three_way:
  assumes "\<And>x. \<not> (P x \<and> Q x)"
  shows "length xs = length (filter P xs) + length (filter Q xs)
           + length (filter (\<lambda>x. \<not> P x \<and> \<not> Q x) xs)"
  using assms by (induction xs) auto

lemma render_group_returned:
  "returned (render_group p) = list_all renderable (g_emails (snd p))"
proof -
  have a: "list_all renderable es \<Longrightarrow>
           list_all (\<lambda>e. stringy (read_opt (Some (e_decision e)) ''action'')) es" for es
    by (induction es) (auto simp: renderable_def)
  show ?thesis
    using count_action_returned [of "g_emails (snd p)" "''keep''"]
      count_action_returned [of "g_emails (snd p)" "''trash''"]
      traverse_returned [of render_row "g_emails (snd p)"] a [of "g_emails (snd p)"]
    by (auto simp: render_group_def Let_def render_row_returned split: sum.splits)
qed

lemma render_group_counts:
  assumes "render_group p = Inr g"
  shows "gv_total g = int (length (g_emails (snd p))) \<and>
         gv_keep g = int (length (filter (\<lambda>e. action_of e [] = Inr ''keep'') (g_emails (snd p)))) \<and>
         gv_trash g = int (length (filter (\<lambda>e. action_of e [] = Inr ''trash'') (g_emails (snd p)))) \<and>
         gv_review g = int (length (filter (\<lambda>e. \<not> action_of e [] = Inr ''keep'' \<and>
                                            \<not> action_of e [] = Inr ''trash'') (g_emails (snd p)))) \<and>
         gv_keep g + gv_trash g + gv_review g = gv_total g"
proof -
  let ?es = "g_emails (snd p)"
  from assms obtain k t where k: "count_action ?es ''keep'' = Inr k"
    and t: "count_action ?es ''trash'' = Inr t"
    and g: "gv_total g = int (length ?es)" "gv_keep g = k" "gv_trash g = t"
      "gv_review g = int (length ?es) - k - t"
    by (auto simp: render_group_def Let_def split: sum.splits)
  have "length ?es = length (filter (\<lambda>e. action_of e [] = Inr ''keep'') ?es)
      + length (filter (\<lambda>e. action_of e [] = Inr ''trash'') ?es)
      + length (filter (\<lambda>e. \<not> action_of e [] = Inr ''keep'' \<and> \<not> action_of e [] = Inr ''trash'') ?es)"
    by (rule length_three_way) auto
  with g count_action_value [OF k] count_action_value [OF t] show ?thesis
    by simp
qed


lemma has_action_fun: "has_action name = (\<lambda>e. action_of e [] = Inr name)"
  by (auto simp: has_action_def)

lemma traverse_all2: "traverse f xs = Inr ys \<Longrightarrow> list_all2 (\<lambda>x y. f x = Inr y) xs ys"
  by (induction xs arbitrary: ys) (auto split: sum.splits)

lemma render_returned:
  "returned (render st) = list_all (\<lambda>p. list_all renderable (g_emails (snd p))) (grouped st)"
proof -
  have "returned (render st) = returned (traverse render_group (senders (grouped st)))"
    by (simp add: render_def split: sum.splits)
  then show ?thesis
    by (simp add: traverse_returned render_group_returned list_all_iff senders_def)
qed

lemma sum_list_senders:
  fixes f :: "string \<times> sender_group \<Rightarrow> int"
  shows "sum_list (map f (senders gs)) = sum_list (map f gs)"
proof -
  have "mset (map f (senders gs)) = mset (map f gs)"
    by (simp add: senders_def)
  then have "sum_mset (mset (map f (senders gs))) = sum_mset (mset (map f gs))"
    by (rule arg_cong)
  then show ?thesis
    by (simp only: sum_mset_sum_list)
qed

lemma sum_list_all2:
  "list_all2 (\<lambda>x y. f x = g y) xs ys \<Longrightarrow> sum_list (map g ys) = sum_list (map f xs)"
  by (induction xs ys rule: list_all2_induct) auto

text \<open>
  C10. render returns for every state whose decisions have an action, summary, category
  and reason that is absent, falsy or a string. Whenever it returns, each section's
  keep, trash and review counts add up to the number of emails of its group, the
  review count being the number of emails whose action is neither keep nor trash
  (missing, empty and unrecognized actions among them); and the summary's three
  totals add up to the number of emails of all groups.
\<close>

theorem render_counts_add_up:
  "(list_all (\<lambda>p. list_all renderable (g_emails (snd p))) (grouped st) \<longrightarrow> returned (render st)) \<and>
   (\<forall>v. render st = Inr v \<longrightarrow>
      list_all (\<lambda>g. gv_keep g + gv_trash g + gv_review g = gv_total g) (v_groups v) \<and>
      list_all2 (\<lambda>p g. shows_counts (snd p) g) (senders (grouped st)) (v_groups v) \<and>
      v_keep v + v_trash v + v_review v = sum_list (map gv_total (v_groups v)) \<and>
      sum_list (map gv_total (v_groups v))
        = (\<Sum>p\<leftarrow>grouped st. int (length (g_emails (snd p)))))"
proof (intro conjI allI impI)
  assume "list_all (\<lambda>p. list_all renderable (g_emails (snd p))) (grouped st)"
  then show "returned (render st)" by (simp add: render_returned)
next
  fix v assume r: "render st = Inr v"
  then have t: "traverse render_group (senders (grouped st)) = Inr (v_groups v)"
    and tot: "v_keep v = sum_list (map gv_keep (v_groups v))"
      "v_trash v = sum_list (map gv_trash (v_groups v))"
      "v_review v = sum_list (map gv_review (v_groups v))"
    by (auto simp: render_def split: sum.splits)
  have a2: "list_all2 (\<lambda>p g. render_group p = Inr g) (senders (grouped st)) (v_groups v)"
    by (rule traverse_all2 [OF t])
  show sc: "list_all2 (\<lambda>p g. shows_counts (snd p) g) (senders (grouped st)) (v_groups v)"
    using a2 by (rule list_all2_mono)
      (drule render_group_counts, simp add: shows_counts_def has_action_fun)
  have each: "list_all2 (\<lambda>p g. gv_keep g + gv_trash g + gv_review g = gv_total g)
                (senders (grouped st)) (v_groups v)"
    using a2 by (rule list_all2_mono) (drule render_group_counts, simp)
  then show ga: "list_all (\<lambda>g. gv_keep g + gv_trash g + gv_review g = gv_total g) (v_groups v)"
    by (induction rule: list_all2_induct) auto
  have "sum_list (map gv_keep gs) + sum_list (map gv_trash gs) + sum_list (map gv_review gs)
          = sum_list (map gv_total gs)"
    if "list_all (\<lambda>g. gv_keep g + gv_trash g + gv_review g = gv_total g) gs" for gs
    using that by (induction gs) auto
  from this [OF ga] tot
  show "v_keep v + v_trash v + v_review v = sum_list (map gv_total (v_groups v))"
    by simp
  have "list_all2 (\<lambda>p g. int (length (g_emails (snd p))) = gv_total g)
          (senders (grouped st)) (v_groups v)"
    using sc by (rule list_all2_mono) (simp add: shows_counts_def)
  from sum_list_all2 [OF this]
  show "sum_list (map gv_total (v_groups v)) = (\<Sum>p\<leftarrow>grouped st. int (length (g_emails (snd p))))"
    by (simp add: sum_list_senders)
qed

theorem render_counts_add_up_witness:
  "list_all (\<lambda>p. list_all renderable (g_emails (snd p))) (grouped example_view_state) \<and>
   returned (render example_view_state) \<and>
   map_sum id
     (\<lambda>v. (map (\<lambda>g. (gv_sender g, gv_total g, gv_keep g, gv_trash g, gv_review g)) (v_groups v),
           v_keep v, v_trash v, v_review v))
     (render example_view_state)
     = Inr ([(''a@x.example'', 3, 1, 1, 1), (''b@x.example'', 2, 0, 0, 2)], 1, 1, 3)"
proof -
  have h: "list_all (\<lambda>p. list_all renderable (g_emails (snd p))) (grouped example_view_state)"
    by code_simp
  have e: "map_sum id
     (\<lambda>v. (map (\<lambda>g. (gv_sender g, gv_total g, gv_keep g, gv_trash g, gv_review g)) (v_groups v),
           v_keep v, v_trash v, v_review v))
     (render example_view_state)
     = Inr ([(''a@x.example'', 3, 1, 1, 1), (''b@x.example'', 2, 0, 0, 2)], 1, 1, 3)"
    by code_simp
  from render_counts_add_up [of example_view_state] h
  have "returned (render example_view_state)"
    by blast
  with h e show ?thesis
    by blast
qed

subsection \<open>Grouping by sender\<close>

lemma grouped_upto_Nil: "grouped_upto [] []"
  by (simp add: grouped_upto_def)

lemma group_add_inv:
  assumes "grouped_upto gs seen" and "group_add gs e = Inr gs'"
  shows "grouped_upto gs' (seen @ [e])"
proof (cases "map_of gs (sender_key e)")
  case None
  then have k: "sender_key e \<notin> set (map fst gs)"
    by (simp add: map_of_eq_None_iff)
  with None assms(2) have n: "\<not> List.member inherited (sender_key e)"
    and gs': "gs' = gs @ [(sender_key e,
        \<lparr>g_sender = sender_key e, g_fromHeaderSample = e_from e, g_emails = [e]\<rparr>)]"
    by (auto simp: group_add_def Let_def split: if_splits)
  from assms(1) have "\<forall>x\<in>set seen. sender_key x \<in> set (map fst gs)"
    by (simp add: grouped_upto_def list_all_iff)
  with k have "\<forall>x\<in>set seen. sender_key x \<noteq> sender_key e"
    by metis
  then have "filter (\<lambda>x. sender_key x = sender_key e) seen = []"
    by (simp add: filter_empty_conv)
  with assms(1) k n show ?thesis
    unfolding gs' grouped_upto_def list_all_iff by auto
next
  case (Some g)
  with assms(2) have gs': "gs' = map (\<lambda>p. if fst p = sender_key e
        then (fst p, (snd p)\<lparr>g_emails := g_emails (snd p) @ [e]\<rparr>) else p) gs"
    by (auto simp: group_add_def Let_def)
  have f: "map fst gs' = map fst gs"
    unfolding gs' by (induction gs) auto
  from Some have "sender_key e \<in> set (map fst gs)"
    by (metis map_of_eq_None_iff option.distinct(1) set_map)
  with assms(1) show ?thesis
    unfolding grouped_upto_def f unfolding gs' list_all_iff by auto
qed

lemma group_from_inv:
  "grouped_upto gs seen \<Longrightarrow> group_from gs es = Inr gs' \<Longrightarrow> grouped_upto gs' (seen @ es)"
proof (induction es arbitrary: gs seen)
  case Nil
  then show ?case by simp
next
  case (Cons e es)
  from Cons.prems(2) obtain g1 where a: "group_add gs e = Inr g1" and r: "group_from g1 es = Inr gs'"
    by (auto split: sum.splits)
  from Cons.IH [OF group_add_inv [OF Cons.prems(1) a] r] show ?case by simp
qed

lemma group_add_returned:
  assumes "grouped_upto gs seen"
  shows "returned (group_add gs e) = (\<not> List.member inherited (sender_key e))"
proof (cases "map_of gs (sender_key e)")
  case None
  then show ?thesis by (simp add: group_add_def Let_def)
next
  case (Some g)
  then have "(sender_key e, g) \<in> set gs" by (rule map_of_SomeD)
  with assms have "\<not> List.member inherited (sender_key e)"
    by (auto simp: grouped_upto_def list_all_iff)
  with Some show ?thesis by (simp add: group_add_def)
qed

lemma group_from_returned:
  "grouped_upto gs seen \<Longrightarrow>
   returned (group_from gs es) = list_all (\<lambda>e. \<not> List.member inherited (sender_key e)) es"
proof (induction es arbitrary: gs seen)
  case Nil
  then show ?case by simp
next
  case (Cons e es)
  show ?case
  proof (cases "group_add gs e")
    case (Inl x)
    with group_add_returned [OF Cons.prems, of e] show ?thesis by simp
  next
    case (Inr g1)
    with group_add_returned [OF Cons.prems, of e]
      Cons.IH [OF group_add_inv [OF Cons.prems Inr]] show ?thesis by simp
  qed
qed

lemma mset_filter_split:
  "k \<notin> set ks \<Longrightarrow>
   mset (filter (\<lambda>e. f e = k) xs) + mset (filter (\<lambda>e. f e \<in> set ks) xs)
     = mset (filter (\<lambda>e. f e = k \<or> f e \<in> set ks) xs)"
  by (induction xs) auto

lemma mset_filter_keys:
  "distinct ks \<Longrightarrow>
   (\<Sum>k\<leftarrow>ks. mset (filter (\<lambda>e. f e = k) xs)) = mset (filter (\<lambda>e. f e \<in> set ks) xs)"
proof (induction ks)
  case Nil
  then show ?case by simp
next
  case (Cons k ks)
  then have "k \<notin> set ks" by simp
  from mset_filter_split [OF this, of f xs] Cons show ?case by simp
qed

lemma grouped_upto_mset:
  assumes "grouped_upto gs seen"
  shows "mset (concat (map (\<lambda>p. g_emails (snd p)) gs)) = mset seen"
proof -
  have "mset (concat (map (\<lambda>p. g_emails (snd p)) gs))
      = (\<Sum>p\<leftarrow>gs. mset (g_emails (snd p)))"
    by (induction gs) auto
  also have "\<dots> = (\<Sum>p\<leftarrow>gs. mset (filter (\<lambda>e. sender_key e = fst p) seen))"
    using assms by (intro arg_cong [where f = sum_list] map_cong)
      (auto simp: grouped_upto_def list_all_iff)
  also have "\<dots> = (\<Sum>k\<leftarrow>map fst gs. mset (filter (\<lambda>e. sender_key e = k) seen))"
    by (simp add: comp_def)
  also have "\<dots> = mset (filter (\<lambda>e. sender_key e \<in> set (map fst gs)) seen)"
    using assms by (intro mset_filter_keys) (simp add: grouped_upto_def)
  also have "filter (\<lambda>e. sender_key e \<in> set (map fst gs)) seen = seen"
    using assms by (simp add: grouped_upto_def list_all_iff)
  finally show ?thesis .
qed

lemma grouped_upto_unique:
  assumes "grouped_upto gs seen" and "e \<in> set seen"
  shows "\<exists>!p. p \<in> set gs \<and> e \<in> set (g_emails (snd p))"
proof -
  from assms obtain p where p: "p \<in> set gs" "fst p = sender_key e"
    by (auto simp: grouped_upto_def list_all_iff)
  with assms have "e \<in> set (g_emails (snd p))"
    by (auto simp: grouped_upto_def list_all_iff)
  moreover have "q = p" if "q \<in> set gs" "e \<in> set (g_emails (snd q))" for q
  proof -
    from that assms(1) have "fst q = sender_key e"
      by (auto simp: grouped_upto_def list_all_iff)
    moreover from assms(1) have "inj_on fst (set gs)"
      by (simp add: grouped_upto_def distinct_map)
    ultimately show ?thesis
      using p that(1) by (simp add: inj_on_def)
  qed
  ultimately show ?thesis using p(1) by blast
qed

lemma senders_sorted:
  "sorted_wrt (\<lambda>p q. length (g_emails (snd q)) \<le> length (g_emails (snd p))) (senders gs)"
proof -
  have "sorted (map (\<lambda>p. - int (length (g_emails (snd p)))) (senders gs))"
    unfolding senders_def by (rule sorted_sort_key)
  then show ?thesis
    by (simp add: sorted_map)
qed


lemma render_order:
  assumes "render st = Inr v"
  shows "map gv_sender (v_groups v) = map fst (senders (grouped st)) \<and>
         map gv_total (v_groups v)
           = map (\<lambda>p. int (length (g_emails (snd p)))) (senders (grouped st))"
proof -
  from assms have "traverse render_group (senders (grouped st)) = Inr (v_groups v)"
    by (auto simp: render_def split: sum.splits)
  then have "list_all2 (\<lambda>p g. render_group p = Inr g) (senders (grouped st)) (v_groups v)"
    by (rule traverse_all2)
  then have "list_all2 (\<lambda>p g. gv_sender g = fst p \<and> gv_total g = int (length (g_emails (snd p))))
               (senders (grouped st)) (v_groups v)"
    by (rule list_all2_mono) (auto simp: render_group_def Let_def split: sum.splits)
  then show ?thesis
    by (induction rule: list_all2_induct) auto
qed

text \<open>
  The grouping loop returns unless a sender key is an inherited member name of the
  dictionary object. Whenever it returns, the groups partition the labeled emails:
  the keys are distinct, each group holds exactly the emails of its key, in scan
  order, and is not empty, so every labeled email is in exactly one group and the
  groups together hold the labeled emails, each as often as it was labeled. The
  order in which render lists the groups is a rearrangement of them by descending
  number of emails, and the sections render produces are in that order.
\<close>

theorem grouping_is_partition:
  "(list_all (\<lambda>e. \<not> List.member inherited (sender_key e)) labeled
      \<longrightarrow> returned (group_emails labeled)) \<and>
   (\<forall>gs. group_emails labeled = Inr gs \<longrightarrow>
      distinct (map fst gs) \<and>
      list_all (\<lambda>p. g_sender (snd p) = fst p \<and> g_emails (snd p) \<noteq> [] \<and>
                    g_emails (snd p) = filter (\<lambda>e. sender_key e = fst p) labeled) gs \<and>
      (\<forall>e\<in>set labeled. \<exists>!p. p \<in> set gs \<and> e \<in> set (g_emails (snd p))) \<and>
      mset (concat (map (\<lambda>p. g_emails (snd p)) gs)) = mset labeled \<and>
      mset (senders gs) = mset gs \<and>
      sorted_wrt (\<lambda>p q. length (g_emails (snd q)) \<le> length (g_emails (snd p))) (senders gs) \<and>
      (\<forall>st v. grouped st = gs \<longrightarrow> render st = Inr v \<longrightarrow>
         map gv_sender (v_groups v) = map fst (senders gs) \<and>
         sorted_wrt (\<lambda>a b. b \<le> a) (map gv_total (v_groups v))))"
proof (intro conjI allI impI ballI)
  assume "list_all (\<lambda>e. \<not> List.member inherited (sender_key e)) labeled"
  then show "returned (group_emails labeled)"
    by (simp add: group_emails_def group_from_returned [OF grouped_upto_Nil])
next
  fix gs assume "group_emails labeled = Inr gs"
  then have inv: "grouped_upto gs labeled"
    using group_from_inv [OF grouped_upto_Nil, of labeled gs] by (simp add: group_emails_def)
  then show "distinct (map fst gs)"
    and "list_all (\<lambda>p. g_sender (snd p) = fst p \<and> g_emails (snd p) \<noteq> [] \<and>
                    g_emails (snd p) = filter (\<lambda>e. sender_key e = fst p) labeled) gs"
    by (simp_all add: grouped_upto_def)
  show "mset (concat (map (\<lambda>p. g_emails (snd p)) gs)) = mset labeled"
    by (rule grouped_upto_mset [OF inv])
  show "mset (senders gs) = mset gs"
    by (simp add: senders_def)
  show "sorted_wrt (\<lambda>p q. length (g_emails (snd q)) \<le> length (g_emails (snd p))) (senders gs)"
    by (rule senders_sorted)
  {
    fix e assume "e \<in> set labeled"
    then show "\<exists>!p. p \<in> set gs \<and> e \<in> set (g_emails (snd p))"
      by (rule grouped_upto_unique [OF inv])
  }
  {
    fix st v assume g: "grouped st = gs" and r: "render st = Inr v"
    from render_order [OF r] g
    show "map gv_sender (v_groups v) = map fst (senders gs)" by simp
    have "sorted_wrt (\<lambda>a b. b \<le> a) (map (\<lambda>p. int (length (g_emails (snd p)))) (senders gs))"
      using senders_sorted [of gs] by (simp add: sorted_wrt_map)
    with render_order [OF r] g
    show "sorted_wrt (\<lambda>a b. b \<le> a) (map gv_total (v_groups v))" by simp
  }
qed

theorem grouping_is_partition_example:
  "list_all (\<lambda>e. \<not> List.member inherited (sender_key e)) example_labeled \<and>
   returned (group_emails example_labeled) \<and>
   map_sum id (\<lambda>gs. map (\<lambda>p. (fst p, map e_id (g_emails (snd p)))) gs)
     (group_emails example_labeled)
     = Inr [(''b@x.example'', [''m1'']), (''a@x.example'', [''m2'', ''m3''])] \<and>
   map_sum id (\<lambda>gs. map (\<lambda>p. (fst p, map e_id (g_emails (snd p)))) (senders gs))
     (group_emails example_labeled)
     = Inr [(''a@x.example'', [''m2'', ''m3'']), (''b@x.example'', [''m1''])] \<and>
   (case group_emails example_labeled of
      Inl x \<Rightarrow> Inl x
    | Inr gs \<Rightarrow>
        map_sum id (\<lambda>v. map (\<lambda>g. (gv_sender g, gv_total g)) (v_groups v))
          (render \<lparr>generatedAt = ''2024-01-01T00:00:00.000Z'', s_query = ''category:promotions'',
                   total = 3, grouped = gs\<rparr>))
     = Inr [(''a@x.example'', 2), (''b@x.example'', 1)]"
proof -
  have h: "list_all (\<lambda>e. \<not> List.member inherited (sender_key e)) example_labeled"
    by code_simp
  have e: "map_sum id (\<lambda>gs. map (\<lambda>p. (fst p, map e_id (g_emails (snd p)))) gs)
     (group_emails example_labeled)
     = Inr [(''b@x.example'', [''m1'']), (''a@x.example'', [''m2'', ''m3''])]"
    by code_simp
  have o: "map_sum id (\<lambda>gs. map (\<lambda>p. (fst p, map e_id (g_emails (snd p)))) (senders gs))
     (group_emails example_labeled)
     = Inr [(''a@x.example'', [''m2'', ''m3'']), (''b@x.example'', [''m1''])]"
    by code_simp
  have r: "(case group_emails example_labeled of
      Inl x \<Rightarrow> Inl x
    | Inr gs \<Rightarrow>
        map_sum id (\<lambda>v. map (\<lambda>g. (gv_sender g, gv_total g)) (v_groups v))
          (render \<lparr>generatedAt = ''2024-01-01T00:00:00.000Z'', s_query = ''category:promotions'',
                   total = 3, grouped = gs\<rparr>))
     = Inr [(''a@x.example'', 2), (''b@x.example'', 1)]"
    by code_simp
  from grouping_is_partition [of example_labeled] h
  have "returned (group_emails example_labeled)"
    by blast
  with h e o r show ?thesis
    by blast
qed

text \<open>
  An email whose sender key is a name that every object inherits stops the grouping.
\<close>

lemma group_emails_inherited_key:
  "group_emails [with_decision (mail ''m1'' ''constructor'') (decided ''m1'' ''keep'')]
     = Inl TypeError"
  by (simp add: group_emails_def group_add_def sender_key_def inherited_def mail_def
        with_decision_def message_meta.defs labeled_email.defs)

text \<open>
  C7 fails on the code. A From header whose quoted display name is \<^verbatim>\<open><constructor>\<close>
  is normalized to the sender \<^verbatim>\<open>constructor\<close>, a name that the dictionary object inherits:
  the grouping loop creates no group for it and throws a TypeError. The scan of a
  mailbox with such a message, listed, fetched and classified without failure, ends
  with that error: no labeled email is in any group, nothing is rendered and no
  snapshot is stored. For every other list of labeled emails the groups are a
  partition of it (\<open>grouping_is_partition\<close>).
\<close>

theorem scan_stops_on_inherited_sender:
  "normalizeSender (Some spoofed_from) = ''constructor'' \<and>
   (case scan spoof_remote example_form ''2024-01-02T00:00:00.000Z'' example_world of
      (r, w') \<Rightarrow> (r, page w', ls_last w' = ls_last example_world, map snd (calls w')))
     = (Inl TypeError, None, True, [True, True, True, True])"
  by code_simp

subsection \<open>Remote calls and the stored snapshot\<close>

lemma ran_iff:
  "ran w w' ok \<longleftrightarrow>
     (\<exists>new. calls w' = calls w @ new \<and> list_all snd (if ok then new else butlast new)) \<and>
     ls_last w' = ls_last w"
proof -
  have "take (length (calls w)) (calls w') = calls w \<longleftrightarrow> (\<exists>new. calls w' = calls w @ new)"
    by (metis append_eq_conv_conj append_take_drop_id)
  then show ?thesis
    by (auto simp: ran_def new_calls_def)
qed

lemma ran_refl: "ran w w ok"
  by (simp add: ran_iff)

lemma list_all_butlast: "list_all P xs \<Longrightarrow> list_all P (butlast xs)"
  by (auto simp: list_all_iff dest: in_set_butlastD)

lemma ran_trans:
  assumes "ran w w1 True" and "ran w1 w2 ok"
  shows "ran w w2 ok"
proof -
  from assms(1) obtain n1 where 1: "calls w1 = calls w @ n1" "list_all snd n1"
    and l1: "ls_last w1 = ls_last w"
    by (auto simp: ran_iff)
  from assms(2) obtain n2 where 2: "calls w2 = calls w1 @ n2"
    "list_all snd (if ok then n2 else butlast n2)" and l2: "ls_last w2 = ls_last w1"
    by (auto simp: ran_iff)
  have "list_all snd (if ok then n1 @ n2 else butlast (n1 @ n2))"
    using 1(2) 2(2) by (auto simp: butlast_append list_all_butlast)
  moreover have "calls w2 = calls w @ (n1 @ n2)"
    using 1(1) 2(1) by simp
  ultimately show ?thesis
    unfolding ran_iff using l1 l2 by metis
qed

lemma ran_status: "ran w (w'\<lparr>status := x\<rparr>) ok = ran w w' ok"
  "ran (w\<lparr>status := x\<rparr>) w' ok = ran w w' ok"
  "ran w (w'\<lparr>page := y\<rparr>) ok = ran w w' ok"
  "ran (w\<lparr>page := y\<rparr>) w' ok = ran w w' ok"
  "ran w (w'\<lparr>ls_settings := z\<rparr>) ok = ran w w' ok"
  "ran (w\<lparr>ls_settings := z\<rparr>) w' ok = ran w w' ok"
  by (simp_all add: ran_def new_calls_def)

lemma gmailFetch_ran: "gmailFetch c res w = (r, w') \<Longrightarrow> ran w w' (returned r)"
  by (auto simp: gmailFetch_def ran_def new_calls_def split: if_splits)

lemma listMessageIds_ran: "listMessageIds R q m w = (r, w') \<Longrightarrow> ran w w' (returned r)"
  by (auto simp: listMessageIds_def Let_def dest: gmailFetch_ran)

lemma getMessageMeta_ran: "getMessageMeta R i w = (r, w') \<Longrightarrow> ran w w' (returned r)"
  by (auto simp: getMessageMeta_def split: prod.splits sum.splits dest: gmailFetch_ran)

lemma classify_ran: "classify R s emails w = (r, w') \<Longrightarrow> ran w w' (returned r)"
  by (auto simp: classify_def Let_def ran_def new_calls_def split: if_splits)

lemma getMetas_ran: "getMetas R ids w = (r, w') \<Longrightarrow> ran w w' (returned r)"
proof (induction ids arbitrary: w r w')
  case Nil
  then show ?case by (auto simp: ran_refl)
next
  case (Cons i ids)
  obtain r1 w1 where m: "getMessageMeta R i w = (r1, w1)" by force
  show ?case
  proof (cases r1)
    case (Inl e)
    with m Cons.prems getMessageMeta_ran [OF m] show ?thesis by auto
  next
    case (Inr a)
    obtain r2 w2 where n: "getMetas R ids w1 = (r2, w2)" by force
    from m Inr getMessageMeta_ran [OF m] have 1: "ran w w1 True" by simp
    from Cons.IH [OF n] have 2: "ran w1 w2 (returned r2)" .
    from m Inr n Cons.prems have "w' = w2" "returned r = returned r2"
      by (auto split: sum.splits)
    with ran_trans [OF 1 2] show ?thesis by simp
  qed
qed

lemma classifyFrom_ran:
  "classifyFrom R s metas i labeled w = (r, w') \<Longrightarrow> ran w w' (returned r)"
proof (induction R s metas i labeled w arbitrary: r w' rule: classifyFrom.induct)
  case (1 R s metas i labeled w)
  show ?case
  proof (cases "i < length metas")
    case False
    with "1.prems" show ?thesis by (auto simp: ran_refl)
  next
    case True
    obtain r1 w1 where c: "classify R s (take (batch_size s) (drop i metas)) w = (r1, w1)"
      by force
    show ?thesis
    proof (cases r1)
      case (Inl e)
      with c True "1.prems" classify_ran [OF c] show ?thesis by auto
    next
      case (Inr out)
      from c Inr classify_ran [OF c] have a: "ran w w1 True" by simp
      from c Inr True "1.prems"
      have "classifyFrom R s metas (i + batch_size s) (labeled @ out)
              (w1\<lparr>status := StProgress (min (i + batch_size s) (length metas)) (length metas)\<rparr>)
            = (r, w')"
        by simp
      from "1.IH" [OF True c [symmetric] Inr this] have "ran w1 w' (returned r)"
        by (simp add: ran_status)
      with a show ?thesis by (rule ran_trans)
    qed
  qed
qed

lemma collect_ran: "collect R s w = (r, w') \<Longrightarrow> ran w w' (returned r)"
proof -
  assume c: "collect R s w = (r, w')"
  obtain r1 w1 where l: "listMessageIds R (query s) (maxMessages s) w = (r1, w1)" by force
  show ?thesis
  proof (cases r1)
    case (Inl e)
    with l c listMessageIds_ran [OF l] show ?thesis by (auto simp: collect_def)
  next
    case (Inr ids)
    with l listMessageIds_ran [OF l] have 1: "ran w w1 True" by simp
    obtain r2 w2 where g: "getMetas R ids w1 = (r2, w2)" by force
    show ?thesis
    proof (cases r2)
      case (Inl e)
      with l \<open>r1 = Inr ids\<close> g c have "w' = w2" "r = Inl e" by (auto simp: collect_def)
      with getMetas_ran [OF g] Inl 1 show ?thesis by (auto intro: ran_trans)
    next
      case (Inr metas)
      with l \<open>r1 = Inr ids\<close> g c have "classifyFrom R s metas 0 [] w2 = (r, w')"
        by (auto simp: collect_def)
      from classifyFrom_ran [OF this] getMetas_ran [OF g] Inr 1 show ?thesis
        by (auto intro: ran_trans)
    qed
  qed
qed

text \<open>
  C6. When the listing, a metadata fetch or a classification batch of a scan fails,
  scan fails with that error in the very state the failure left: nothing runs after
  it. In that state the stored last-scan document is the one from before the scan,
  and of the remote calls the scan made, every one but the last returned normally, so
  no call was made after a failed one.
\<close>

theorem scan_failure_keeps_snapshot:
  assumes "collect R (fst (saveSettings f w))
             ((snd (saveSettings f w))\<lparr>status := StScanning, page := None\<rparr>) = (Inl e, w1)"
  shows "scan R f now w = (Inl e, w1) \<and> ls_last w1 = ls_last w \<and> ran w w1 False"
proof -
  from collect_ran [OF assms] have "ran w w1 False"
    by (simp add: saveSettings_def Let_def ran_status)
  moreover from assms have "scan R f now w = (Inl e, w1)"
    by (cases "saveSettings f w") (simp add: scan_def)
  ultimately show ?thesis by (simp add: ran_def)
qed


theorem scan_failure_keeps_snapshot_witness:
  "fst (collect example_remote (fst (saveSettings example_form example_world))
          ((snd (saveSettings example_form example_world))\<lparr>status := StScanning, page := None\<rparr>))
     = Inl (GroqApiError 429 ''rate limit'') \<and>
   fst (scan example_remote example_form ''2024-01-02T00:00:00.000Z'' example_world)
     = Inl (GroqApiError 429 ''rate limit'') \<and>
   ls_last (snd (scan example_remote example_form ''2024-01-02T00:00:00.000Z'' example_world))
     = Some example_trash_state \<and>
   map snd (calls (snd (scan example_remote example_form ''2024-01-02T00:00:00.000Z''
                          example_world)))
     = [True, True, True, True, True, False]"
proof -
  let ?c = "collect example_remote (fst (saveSettings example_form example_world))
          ((snd (saveSettings example_form example_world))\<lparr>status := StScanning, page := None\<rparr>)"
  have f: "fst ?c = Inl (GroqApiError 429 ''rate limit'')"
    by code_simp
  then have c: "?c = (Inl (GroqApiError 429 ''rate limit''), snd ?c)"
    by (simp add: prod_eq_iff)
  have l: "map snd (calls (snd ?c)) = [True, True, True, True, True, False]"
    by code_simp
  from scan_failure_keeps_snapshot [OF c, of "''2024-01-02T00:00:00.000Z''"] f l
  show ?thesis
    by (simp add: example_world_def)
qed

text \<open>
  A scan whose steps all succeed stores the new snapshot: here three messages of one
  sender, classified in one batch.
\<close>

lemma scan_success_example:
  "(case scan example_remote (example_form\<lparr>f_batchSize := None\<rparr>) ''2024-01-02T00:00:00.000Z''
           example_world of
      (r, w') \<Rightarrow>
        (map_sum id (\<lambda>st. (total st, map (\<lambda>p. (fst p, map e_id (g_emails (snd p)))) (grouped st))) r,
         ls_last w' = (case r of Inl x \<Rightarrow> None | Inr st \<Rightarrow> Some st),
         status w', map snd (calls w')))
     = (Inr (3, [(''news@shop.example'', [''m1'', ''m2'', ''m3''])]), True,
        StDone 3 ''category:promotions'' ''2024-01-02T00:00:00.000Z'',
        [True, True, True, True, True])"
  by code_simp

subsection \<open>Trash handlers\<close>

lemma trashMessage_frame:
  "trashMessage R i w = (r, w') \<Longrightarrow> ls_last w' = ls_last w \<and> page w' = page w"
  by (auto simp: trashMessage_def gmailFetch_def split: if_splits)

text \<open>
  C9. When the one trashMessage call of a confirmed manual Trash fails, the handler
  fails with that error, the state object is untouched (so the email's trashed flag
  is what it was), and neither the stored snapshot nor the rendered page changes.
\<close>

theorem manualTrash_failure:
  assumes "map_of (grouped st) sender = Some g" and "i < length (g_emails g)"
    and "trashMessage R (e_id (g_emails g ! i)) (w\<lparr>status := StTrashingOne\<rparr>) = (Inl x, w1)"
  shows "manualTrash R True sender i st w = (Inl x, st, w1) \<and>
         ls_last w1 = ls_last w \<and> page w1 = page w"
  using assms trashMessage_frame [OF assms(3)]
  by (simp add: manualTrash_def)

theorem manualTrash_failure_witness:
  "(case manualTrash example_remote True ''a@x.example'' 1 example_trash_state example_world of
      (r, st', w') \<Rightarrow>
        (r, st' = example_trash_state, ls_last w' = ls_last example_world,
         map (\<lambda>p. map (\<lambda>e. (e_id e, e_trashed e)) (g_emails (snd p))) (grouped st'),
         map fst (calls w')))
     = (Inl (GmailApiError 500 ''backend error''), True, True,
        [[(''t1'', False), (''t2'', False), (''t3'', False), (''k1'', False), (''r1'', False)]],
        [TrashCall ''t2''])"
proof -
  let ?g = "\<lparr>g_sender = ''a@x.example'', g_fromHeaderSample = ''a@x.example'',
           g_emails = [with_decision (mail ''t1'' ''a@x.example'') (decided ''t1'' ''trash''),
                       with_decision (mail ''t2'' ''a@x.example'') (decided ''t2'' ''trash''),
                       with_decision (mail ''t3'' ''a@x.example'') (decided ''t3'' ''trash''),
                       with_decision (mail ''k1'' ''a@x.example'') (decided ''k1'' ''keep''),
                       with_decision (mail ''r1'' ''a@x.example'') (decided ''r1'' ''review'')]\<rparr>"
  let ?t = "trashMessage example_remote (e_id (g_emails ?g ! 1))
              (example_world\<lparr>status := StTrashingOne\<rparr>)"
  have m: "map_of (grouped example_trash_state) ''a@x.example'' = Some ?g"
    by (simp add: example_trash_state_def)
  have i: "1 < length (g_emails ?g)"
    by simp
  have "fst ?t = Inl (GmailApiError 500 ''backend error'')"
    by code_simp
  then have t: "?t = (Inl (GmailApiError 500 ''backend error''), snd ?t)"
    by (simp add: prod_eq_iff)
  have c: "map fst (calls (snd ?t)) = [TrashCall ''t2'']"
    by code_simp
  have e: "map (\<lambda>p. map (\<lambda>e. (e_id e, e_trashed e)) (g_emails (snd p))) (grouped example_trash_state)
      = [[(''t1'', False), (''t2'', False), (''t3'', False), (''k1'', False), (''r1'', False)]]"
    by code_simp
  from manualTrash_failure [OF m i t] c e show ?thesis
    by simp
qed

text \<open>
  The count that the bulk action reports is the number of its calls that returned
  normally; the emails it marks are those of the selected ids, whatever the remote
  answered.
\<close>

lemma trashMessage_calls:
  "trashMessage R i w = (r, w') \<Longrightarrow>
   (\<exists>new. calls w' = calls w @ new \<and> length (filter snd new) = (if returned r then 1 else 0))"
  by (auto simp: trashMessage_def gmailFetch_def split: if_splits)

lemma trashEach_counts:
  "trashEach R ids ok w = (ok', w') \<Longrightarrow>
   (\<exists>new. calls w' = calls w @ new \<and> ok' = ok + length (filter snd new))"
proof (induction ids arbitrary: ok w)
  case Nil
  then show ?case by simp
next
  case (Cons i ids)
  obtain r w1 where t: "trashMessage R i w = (r, w1)" by force
  from trashMessage_calls [OF t] obtain n1 where
    n1: "calls w1 = calls w @ n1" "length (filter snd n1) = (if returned r then 1 else 0)"
    by blast
  from t Cons.prems have "trashEach R ids (if returned r then ok + 1 else ok) w1 = (ok', w')"
    by (cases r) auto
  from Cons.IH [OF this] obtain n2 where
    "calls w' = calls w1 @ n2" "ok' = (if returned r then ok + 1 else ok) + length (filter snd n2)"
    by blast
  with n1 have "calls w' = calls w @ (n1 @ n2) \<and> ok' = ok + length (filter snd (n1 @ n2))"
    by auto
  then show ?case by blast
qed

lemma trashSuggested_marks_selected:
  assumes "map_of (grouped st) sender = Some g" and "suggested (g_emails g) = Inr ids"
    and "ids \<noteq> []"
  shows "fst (snd (trashSuggested R True sender st w))
           = with_emails sender (mark ids (g_emails g)) st"
  using assms
  by (simp add: trashSuggested_def Let_def split: prod.splits sum.splits)

text \<open>
  C1 fails on the code. In a group of five emails, three of them with action trash,
  where the remote trashes \<^verbatim>\<open>t1\<close> and refuses \<^verbatim>\<open>t2\<close> and \<^verbatim>\<open>t3\<close>, the confirmed bulk action
  reports 1 of 3, and marks all three selected emails trashed, in the state and in the
  stored snapshot: the marking loop goes by the selected ids, not by the calls that
  succeeded.
\<close>

theorem trashSuggested_marks_failed:
  "(case trashSuggested example_remote True ''a@x.example'' example_trash_state example_world of
      (r, st', w') \<Rightarrow>
        (r, map (\<lambda>p. map (\<lambda>e. (e_id e, e_trashed e)) (g_emails (snd p))) (grouped st'),
         ls_last w' = Some st', status w', calls w'))
     = (Inr (),
        [[(''t1'', True), (''t2'', True), (''t3'', True), (''k1'', False), (''r1'', False)]],
        True, StTrashedCount 1 3,
        [(TrashCall ''t1'', True), (TrashCall ''t2'', False), (TrashCall ''t3'', False)])"
  by code_simp

subsection \<open>What is sent to the remote services\<close>

lemma sent_only_iff:
  "sent_only w w' \<longleftrightarrow>
     (\<exists>new. calls w' = calls w @ new \<and> list_all (\<lambda>c. metadata_only (fst c)) new)"
proof -
  have "take (length (calls w)) (calls w') = calls w \<longleftrightarrow> (\<exists>new. calls w' = calls w @ new)"
    by (metis append_eq_conv_conj append_take_drop_id)
  then show ?thesis
    by (auto simp: sent_only_def new_calls_def)
qed

lemma sent_only_refl: "sent_only w w"
  by (simp add: sent_only_iff)

lemma sent_only_trans: "sent_only w w1 \<Longrightarrow> sent_only w1 w2 \<Longrightarrow> sent_only w w2"
  by (auto simp: sent_only_iff)

lemma sent_only_fields:
  "sent_only w (w'\<lparr>status := x\<rparr>) = sent_only w w'"
  "sent_only (w\<lparr>status := x\<rparr>) w' = sent_only w w'"
  "sent_only w (w'\<lparr>page := y\<rparr>) = sent_only w w'"
  "sent_only (w\<lparr>page := y\<rparr>) w' = sent_only w w'"
  "sent_only w (w'\<lparr>ls_settings := z\<rparr>) = sent_only w w'"
  "sent_only (w\<lparr>ls_settings := z\<rparr>) w' = sent_only w w'"
  "sent_only w (w'\<lparr>ls_last := u\<rparr>) = sent_only w w'"
  "sent_only (w\<lparr>ls_last := u\<rparr>) w' = sent_only w w'"
  by (simp_all add: sent_only_def new_calls_def)

lemma six_members_payload: "six_members (payload e)"
  by (simp add: six_members_def payload_def)

lemma metadata_only_chat: "metadata_only (ChatCall (groq_body s emails))"
  by (simp add: metadata_only_def groq_body_def list_all_iff six_members_payload)

lemma gmailFetch_sent: "metadata_only c \<Longrightarrow> sent_only w (snd (gmailFetch c res w))"
  by (auto simp: gmailFetch_def sent_only_def new_calls_def)

lemma listMessageIds_sent: "sent_only w (snd (listMessageIds R q m w))"
  by (simp add: listMessageIds_def Let_def gmailFetch_sent metadata_only_def)

lemma getMessageMeta_sent: "sent_only w (snd (getMessageMeta R i w))"
proof -
  have "snd (getMessageMeta R i w)
      = snd (gmailFetch (GetCall i metadata_params) (r_get R (length (calls w)) i) w)"
    by (simp add: getMessageMeta_def split: prod.splits sum.splits)
  then show ?thesis
    by (simp add: gmailFetch_sent metadata_only_def metadata_params_def)
qed

lemma classify_sent: "sent_only w (snd (classify R s emails w))"
  using metadata_only_chat [of s emails]
  by (auto simp: classify_def Let_def sent_only_def new_calls_def)

lemma getMetas_sent: "sent_only w (snd (getMetas R ids w))"
proof (induction ids arbitrary: w)
  case Nil
  then show ?case by (simp add: sent_only_refl)
next
  case (Cons i ids)
  obtain r1 w1 where m: "getMessageMeta R i w = (r1, w1)" by force
  with getMessageMeta_sent [of w R i] have 1: "sent_only w w1" by simp
  show ?case
  proof (cases r1)
    case (Inl e)
    with m 1 show ?thesis by simp
  next
    case (Inr a)
    with m have "snd (getMetas R (i # ids) w) = snd (getMetas R ids w1)"
      by (simp split: prod.splits sum.splits)
    with sent_only_trans [OF 1 Cons.IH [of w1]] show ?thesis by simp
  qed
qed

lemma classifyFrom_sent: "sent_only w (snd (classifyFrom R s metas i labeled w))"
proof (induction R s metas i labeled w rule: classifyFrom.induct)
  case (1 R s metas i labeled w)
  show ?case
  proof (cases "i < length metas")
    case False
    then show ?thesis by (simp add: sent_only_refl)
  next
    case True
    obtain r1 w1 where c: "classify R s (take (batch_size s) (drop i metas)) w = (r1, w1)"
      by force
    with classify_sent [of w R s "take (batch_size s) (drop i metas)"]
    have a: "sent_only w w1" by simp
    show ?thesis
    proof (cases r1)
      case (Inl e)
      with c True a show ?thesis by simp
    next
      case (Inr out)
      from "1.IH" [OF True c [symmetric] Inr]
      have "sent_only w1 (snd (classifyFrom R s metas (i + batch_size s) (labeled @ out)
              (w1\<lparr>status := StProgress (min (i + batch_size s) (length metas)) (length metas)\<rparr>)))"
        by (simp add: sent_only_fields)
      with a have "sent_only w (snd (classifyFrom R s metas (i + batch_size s) (labeled @ out)
              (w1\<lparr>status := StProgress (min (i + batch_size s) (length metas)) (length metas)\<rparr>)))"
        by (rule sent_only_trans)
      with c True Inr show ?thesis by simp
    qed
  qed
qed

lemma collect_sent: "sent_only w (snd (collect R s w))"
proof -
  obtain r1 w1 where l: "listMessageIds R (query s) (maxMessages s) w = (r1, w1)" by force
  with listMessageIds_sent [of w R "query s" "maxMessages s"] have 1: "sent_only w w1" by simp
  show ?thesis
  proof (cases r1)
    case (Inl e)
    with l 1 show ?thesis by (simp add: collect_def)
  next
    case (Inr ids)
    obtain r2 w2 where g: "getMetas R ids w1 = (r2, w2)" by force
    with getMetas_sent [of w1 R ids] 1 have 2: "sent_only w w2"
      by (auto intro: sent_only_trans)
    show ?thesis
    proof (cases r2)
      case (Inl e)
      with l \<open>r1 = Inr ids\<close> g 2 show ?thesis by (simp add: collect_def)
    next
      case (Inr metas)
      with l \<open>r1 = Inr ids\<close> g have "snd (collect R s w) = snd (classifyFrom R s metas 0 [] w2)"
        by (simp add: collect_def)
      with sent_only_trans [OF 2 classifyFrom_sent [of w2 R s metas 0 "[]"]] show ?thesis
        by simp
    qed
  qed
qed

lemma finish_calls: "calls (snd (finish now s labeled w)) = calls w"
  by (simp add: finish_def Let_def split: sum.splits)

lemma scan_sent: "sent_only w (snd (scan R f now w))"
proof -
  obtain s w0 where sv: "saveSettings f w = (s, w0)" by force
  then have w0: "calls w0 = calls w"
    by (auto simp: saveSettings_def Let_def)
  let ?w1 = "w0\<lparr>status := StScanning, page := None\<rparr>"
  have c: "sent_only w (snd (collect R s ?w1))"
    using collect_sent [of ?w1 R s] w0 by (simp add: sent_only_def new_calls_def)
  obtain r w2 where co: "collect R s ?w1 = (r, w2)" by force
  have "calls (snd (scan R f now w)) = calls w2"
    using sv co by (cases r) (simp_all add: scan_def finish_calls)
  with c co show ?thesis
    by (simp add: sent_only_def new_calls_def)
qed

text \<open>
  C8. The object sent for an email has the six members id, from, to, subject, date
  and snippet and no other, so two emails that agree on these six are sent as the
  same object whatever their sender, decision or trashed flag; the user message is
  the list of these objects; the classification round trip sends this request and
  nothing else; the mailbox is asked for a message in the metadata format with the
  four headers, never for its body; and every remote call that a scan makes, however
  the remote answers, is of these kinds.
\<close>

theorem classification_payload:
  fixes a :: "'a message_meta_scheme" and b :: "'b message_meta_scheme"
  shows "payload a =
           JObj [(''id'', JStr (e_id a)), (''from'', JStr (e_from a)), (''to'', JStr (e_to a)),
                 (''subject'', JStr (e_subject a)), (''date'', JStr (e_date a)),
                 (''snippet'', JStr (e_snippet a))] \<and>
         (e_id a = e_id b \<and> e_from a = e_from b \<and> e_to a = e_to b \<and>
          e_subject a = e_subject b \<and> e_date a = e_date b \<and> e_snippet a = e_snippet b
            \<longrightarrow> payload a = payload b) \<and>
         rq_user (groq_body s emails) = JObj [(''emails'', JArr (map payload emails))] \<and>
         map fst (calls (snd (classify R s emails w))) =
           map fst (calls w) @ (if groqKey s = [] then [] else [ChatCall (groq_body s emails)]) \<and>
         map fst (calls (snd (getMessageMeta R i w))) =
           map fst (calls w) @
             (if accessToken w = None \<or> accessToken w = Some [] then []
              else [GetCall i [(''format'', ''metadata''), (''metadataHeaders'', ''From''),
                               (''metadataHeaders'', ''To''), (''metadataHeaders'', ''Subject''),
                               (''metadataHeaders'', ''Date'')]]) \<and>
         sent_only w (snd (scan R f now w))"
  using scan_sent [of w R f now]
  by (auto simp: payload_def groq_body_def classify_def getMessageMeta_def gmailFetch_def
        metadata_params_def Let_def split: sum.splits prod.splits)

theorem classification_payload_witness:
  "e_id (mail ''m1'' ''a@x.example'') =
     e_id (with_decision ((mail ''m1'' ''a@x.example'')\<lparr>e_sender := ''other''\<rparr>) (decided ''m1'' ''keep'')) \<and>
   e_sender (mail ''m1'' ''a@x.example'') \<noteq>
     e_sender (with_decision ((mail ''m1'' ''a@x.example'')\<lparr>e_sender := ''other''\<rparr>) (decided ''m1'' ''keep'')) \<and>
   payload (mail ''m1'' ''a@x.example'') =
     payload (with_decision ((mail ''m1'' ''a@x.example'')\<lparr>e_sender := ''other''\<rparr>) (decided ''m1'' ''keep''))"
  using classification_payload
    [of "mail ''m1'' ''a@x.example''"
        "with_decision ((mail ''m1'' ''a@x.example'')\<lparr>e_sender := ''other''\<rparr>) (decided ''m1'' ''keep'')",
     THEN conjunct2, THEN conjunct1]
  by (simp add: mail_def with_decision_def message_meta.defs labeled_email.defs)

end
